theory Spec2Isabelle
  imports Main "HOL-Library.Word"
begin

unbundle bit_operations_syntax

section \<open>Memory\<close>

text \<open>
  \<^verbatim>\<open>OutBuffer\<close> (include/outbuffer.h) owns one array obtained from \<^verbatim>\<open>new char[capacity]\<close>
  and writes into it through a raw pointer. Copy and move make two objects refer to
  arrays, so the arrays live in an explicit heap: a list of blocks, the address of a
  block being its index. A block that was released is \<open>None\<close>. A cell of a block is
  \<open>None\<close> while its value is indeterminate (the array is not initialised by \<^verbatim>\<open>new\<close>).
  \<open>avail\<close> is the number of bytes the allocator can still hand out: \<^verbatim>\<open>new\<close> throws
  \<^verbatim>\<open>std::bad_alloc\<close> beyond it.
\<close>

type_synonym byte = "8 word"
type_synonym cell = "byte option"
type_synonym addr = nat
type_synonym size_t = "64 word"

datatype ptr = Nullptr | Ptr addr nat

datatype fault = BadAlloc | UndefinedBehaviour

record heap =
  blocks :: "cell list option list"
  avail :: nat

definition new_array :: "heap \<Rightarrow> nat \<Rightarrow> fault + heap \<times> addr" where
  "new_array h n =
     (if n \<le> avail h
      then Inr (h\<lparr>blocks := blocks h @ [Some (replicate n None)], avail := avail h - n\<rparr>,
                length (blocks h))
      else Inl BadAlloc)"

definition delete_array :: "heap \<Rightarrow> addr \<Rightarrow> fault + heap" where
  "delete_array h a =
     (if a < length (blocks h)
      then (case blocks h ! a of
              None \<Rightarrow> Inl UndefinedBehaviour
            | Some blk \<Rightarrow> Inr (h\<lparr>blocks := (blocks h)[a := None], avail := avail h + length blk\<rparr>))
      else Inl UndefinedBehaviour)"

text \<open>
  Reading and writing \<open>n\<close> cells through a pointer. The C++ abstract machine leaves
  the access undefined when the pointer is null, when its array was released, or when
  the range leaves the array; the code checks none of this, and the model reports it as
  \<open>UndefinedBehaviour\<close> instead of inventing a result.
\<close>

definition load :: "heap \<Rightarrow> ptr \<Rightarrow> nat \<Rightarrow> fault + cell list" where
  "load h p n =
     (case p of
        Nullptr \<Rightarrow> Inl UndefinedBehaviour
      | Ptr a off \<Rightarrow>
          if a < length (blocks h)
          then (case blocks h ! a of
                  None \<Rightarrow> Inl UndefinedBehaviour
                | Some blk \<Rightarrow>
                    if off + n \<le> length blk then Inr (take n (drop off blk))
                    else Inl UndefinedBehaviour)
          else Inl UndefinedBehaviour)"

definition store :: "heap \<Rightarrow> ptr \<Rightarrow> cell list \<Rightarrow> fault + heap" where
  "store h p cs =
     (case p of
        Nullptr \<Rightarrow> Inl UndefinedBehaviour
      | Ptr a off \<Rightarrow>
          if a < length (blocks h)
          then (case blocks h ! a of
                  None \<Rightarrow> Inl UndefinedBehaviour
                | Some blk \<Rightarrow>
                    if off + length cs \<le> length blk
                    then Inr (h\<lparr>blocks := (blocks h)
                                 [a := Some (take off blk @ cs @ drop (off + length cs) blk)]\<rparr>)
                    else Inl UndefinedBehaviour)
          else Inl UndefinedBehaviour)"

text \<open>
  \<^verbatim>\<open>memcpy(dst, src, n)\<close> where \<open>src\<close> points to an object outside the buffers (a local
  variable, the caller's array): the object is given by the bytes readable from \<open>src\<close>.
  Reading more than the object holds is undefined.
\<close>

definition memcpy :: "heap \<Rightarrow> ptr \<Rightarrow> byte list \<Rightarrow> nat \<Rightarrow> fault + heap" where
  "memcpy h dst src n =
     (if n \<le> length src then store h dst (map Some (take n src))
      else Inl UndefinedBehaviour)"

text \<open>\<^verbatim>\<open>memcpy(dst, src, n)\<close> between two arrays of the heap (the copy constructor).\<close>

definition memcpy_heap :: "heap \<Rightarrow> ptr \<Rightarrow> ptr \<Rightarrow> nat \<Rightarrow> fault + heap" where
  "memcpy_heap h dst src n =
     (case load h src n of
        Inl f \<Rightarrow> Inl f
      | Inr cs \<Rightarrow> store h dst cs)"

text \<open>
  Pointer arithmetic \<^verbatim>\<open>p + n\<close>. It is not checked here: in every use below a
  \<^verbatim>\<open>memcpy\<close> over the same range stands beside it and reports the range that leaves
  the array.
\<close>

fun ptr_add :: "ptr \<Rightarrow> nat \<Rightarrow> ptr" where
  "ptr_add Nullptr n = Nullptr"
| "ptr_add (Ptr a off) n = Ptr a (off + n)"

section \<open>Byte order\<close>

text \<open>
  The object representation of an integer of \<open>n\<close> bytes depends on the host:
  least significant byte first on a little-endian host, most significant byte first
  on a big-endian one. \<^verbatim>\<open>memcpy(_current, &v, sizeof(v))\<close> copies this representation.
\<close>

datatype endian = LittleEndian | BigEndian

fun le_bytes :: "nat \<Rightarrow> 'a::len word \<Rightarrow> byte list" where
  "le_bytes 0 w = []"
| "le_bytes (Suc n) w = ucast w # le_bytes n (drop_bit 8 w)"

definition be_bytes :: "nat \<Rightarrow> 'a::len word \<Rightarrow> byte list" where
  "be_bytes n w = rev (le_bytes n w)"

definition object_repr :: "endian \<Rightarrow> nat \<Rightarrow> 'a::len word \<Rightarrow> byte list" where
  "object_repr e n w = (case e of LittleEndian \<Rightarrow> le_bytes n w | BigEndian \<Rightarrow> be_bytes n w)"

text \<open>Reading bytes back as an integer, most significant byte first.\<close>

definition be_word :: "byte list \<Rightarrow> 'a::len word" where
  "be_word bs = foldl (\<lambda>acc b. push_bit 8 acc OR ucast b) 0 bs"

text \<open>Reading an object representation back in the byte order of the host.\<close>

definition host_word :: "endian \<Rightarrow> byte list \<Rightarrow> 'a::len word" where
  "host_word e bs = (case e of LittleEndian \<Rightarrow> be_word (rev bs) | BigEndian \<Rightarrow> be_word bs)"

text \<open>
  Modelled from the spec: \<^verbatim>\<open>htobe16\<close> comes from \<^verbatim>\<open>endian.h\<close>, which is not among the
  sources. The specification gives it as the conversion "host order \<rightarrow> big-endian
  (network order)": the two bytes of the value are swapped on a little-endian host, and
  the value is returned as it is on a big-endian host.
\<close>

definition bswap16 :: "16 word \<Rightarrow> 16 word" where
  "bswap16 x = (drop_bit 8 x AND 0xff) OR push_bit 8 (x AND 0xff)"

definition htobe16 :: "endian \<Rightarrow> 16 word \<Rightarrow> 16 word" where
  "htobe16 e x = (case e of LittleEndian \<Rightarrow> bswap16 x | BigEndian \<Rightarrow> x)"

text \<open>
  Modelled from the spec: \<^verbatim>\<open>htobe32\<close> of \<^verbatim>\<open>endian.h\<close> (not among the sources), "host
  order \<rightarrow> big-endian": the four bytes are reversed on a little-endian host.
\<close>

definition bswap32 :: "32 word \<Rightarrow> 32 word" where
  "bswap32 x =
     drop_bit 24 (x AND 0xff000000) OR drop_bit 8 (x AND 0x00ff0000) OR
     push_bit 8 (x AND 0x0000ff00) OR push_bit 24 (x AND 0x000000ff)"

definition htobe32 :: "endian \<Rightarrow> 32 word \<Rightarrow> 32 word" where
  "htobe32 e x = (case e of LittleEndian \<Rightarrow> bswap32 x | BigEndian \<Rightarrow> x)"

text \<open>
  Modelled from the spec: \<^verbatim>\<open>htobe64\<close> of \<^verbatim>\<open>endian.h\<close> (not among the sources), "host
  order \<rightarrow> big-endian": the eight bytes are reversed on a little-endian host.
\<close>

definition bswap64 :: "64 word \<Rightarrow> 64 word" where
  "bswap64 x =
     drop_bit 56 (x AND 0xff00000000000000) OR drop_bit 40 (x AND 0x00ff000000000000) OR
     drop_bit 24 (x AND 0x0000ff0000000000) OR drop_bit 8 (x AND 0x000000ff00000000) OR
     push_bit 8 (x AND 0x00000000ff000000) OR push_bit 24 (x AND 0x0000000000ff0000) OR
     push_bit 40 (x AND 0x000000000000ff00) OR push_bit 56 (x AND 0x00000000000000ff)"

definition htobe64 :: "endian \<Rightarrow> 64 word \<Rightarrow> 64 word" where
  "htobe64 e x = (case e of LittleEndian \<Rightarrow> bswap64 x | BigEndian \<Rightarrow> x)"

section \<open>The class OutBuffer\<close>

text \<open>
  The four data members. \<open>ob_buffer\<close> is the \<^verbatim>\<open>std::unique_ptr<char[]>\<close>: \<open>None\<close> when
  it is empty, \<open>Some a\<close> when it owns the array at address \<open>a\<close>. \<^verbatim>\<open>size_t\<close> is taken
  as 64 bits wide.
\<close>

record OutBuffer =
  ob_buffer :: "addr option"
  ob_current :: ptr
  ob_size :: size_t
  ob_capacity :: size_t

text \<open>\<^verbatim>\<open>std::unique_ptr::get\<close>\<close>

definition get :: "addr option \<Rightarrow> ptr" where
  "get u = (case u of None \<Rightarrow> Nullptr | Some a \<Rightarrow> Ptr a 0)"

text \<open>\<^verbatim>\<open>OutBuffer(uint32_t capacity)\<close>\<close>

definition OutBuffer_ctor :: "heap \<Rightarrow> 32 word \<Rightarrow> fault + heap \<times> OutBuffer" where
  "OutBuffer_ctor h capacity =
     (case new_array h (unat capacity) of
        Inl f \<Rightarrow> Inl f
      | Inr (h', a) \<Rightarrow>
          Inr (h', \<lparr>ob_buffer = Some a, ob_current = get (Some a), ob_size = 0,
                    ob_capacity = ucast capacity\<rparr>))"

text \<open>
  \<^verbatim>\<open>OutBuffer(const OutBuffer &that)\<close>: the members are initialised in the order of
  their declaration, then the body copies \<^verbatim>\<open>_size\<close> bytes.
\<close>

definition OutBuffer_copy :: "heap \<Rightarrow> OutBuffer \<Rightarrow> fault + heap \<times> OutBuffer" where
  "OutBuffer_copy h that =
     (case new_array h (unat (ob_capacity that)) of
        Inl f \<Rightarrow> Inl f
      | Inr (h', a) \<Rightarrow>
          let this = \<lparr>ob_buffer = Some a,
                      ob_current = ptr_add (get (Some a)) (unat (ob_size that)),
                      ob_size = ob_size that,
                      ob_capacity = ob_capacity that\<rparr>
          in (case memcpy_heap h' (get (ob_buffer this)) (get (ob_buffer that))
                     (unat (ob_size this)) of
                Inl f \<Rightarrow> Inl f
              | Inr h'' \<Rightarrow> Inr (h'', this)))"

text \<open>
  \<^verbatim>\<open>OutBuffer(OutBuffer &&that)\<close>: returns the new object and \<open>that\<close> as the
  constructor leaves it. Moving from a \<^verbatim>\<open>unique_ptr\<close> leaves it empty. The heap is
  not touched.
\<close>

definition OutBuffer_move :: "OutBuffer \<Rightarrow> OutBuffer \<times> OutBuffer" where
  "OutBuffer_move that =
     (\<lparr>ob_buffer = ob_buffer that, ob_current = ob_current that, ob_size = ob_size that,
       ob_capacity = ob_capacity that\<rparr>,
      that\<lparr>ob_buffer := None, ob_size := 0, ob_capacity := 0, ob_current := Nullptr\<rparr>)"

text \<open>
  \<^verbatim>\<open>~OutBuffer() = default\<close>: destroys the members; the \<^verbatim>\<open>unique_ptr\<close> releases its
  array when it owns one. Releasing an array twice is undefined.
\<close>

definition OutBuffer_dtor :: "heap \<Rightarrow> OutBuffer \<Rightarrow> fault + heap" where
  "OutBuffer_dtor h this =
     (case ob_buffer this of None \<Rightarrow> Inr h | Some a \<Rightarrow> delete_array h a)"

text \<open>\<^verbatim>\<open>data()\<close> and \<^verbatim>\<open>size()\<close>\<close>

definition data :: "OutBuffer \<Rightarrow> ptr" where
  "data this = get (ob_buffer this)"

definition size_of :: "OutBuffer \<Rightarrow> size_t" where
  "size_of this = ob_size this"

subsection \<open>The overloads of add\<close>

text \<open>
  Every overload ends in the same three statements,
  \<^verbatim>\<open>memcpy(_current, src, n); _current += n; _size += n;\<close>
\<close>

definition add_bytes :: "heap \<Rightarrow> OutBuffer \<Rightarrow> byte list \<Rightarrow> nat \<Rightarrow> fault + heap \<times> OutBuffer" where
  "add_bytes h this src n =
     (case memcpy h (ob_current this) src n of
        Inl f \<Rightarrow> Inl f
      | Inr h' \<Rightarrow>
          Inr (h', this\<lparr>ob_current := ptr_add (ob_current this) n,
                        ob_size := ob_size this + of_nat n\<rparr>))"

text \<open>
  \<^verbatim>\<open>add(const char *string, uint32_t size)\<close>: \<open>string\<close> is given by the bytes readable
  from the pointer.
\<close>

definition add_raw :: "heap \<Rightarrow> OutBuffer \<Rightarrow> byte list \<Rightarrow> 32 word \<Rightarrow> fault + heap \<times> OutBuffer" where
  "add_raw h this string sz = add_bytes h this string (unat sz)"

text \<open>
  \<^verbatim>\<open>add(const std::string &string)\<close>: \<^verbatim>\<open>c_str()\<close> is the content followed by a zero
  byte; \<^verbatim>\<open>string.size()\<close> is a \<^verbatim>\<open>size_t\<close> that the call converts to \<^verbatim>\<open>uint32_t\<close>.
\<close>

definition add_string :: "heap \<Rightarrow> OutBuffer \<Rightarrow> byte list \<Rightarrow> fault + heap \<times> OutBuffer" where
  "add_string h this string =
     add_raw h this (string @ [0]) (ucast (of_nat (length string) :: size_t))"

definition add_uint8 :: "heap \<Rightarrow> OutBuffer \<Rightarrow> 8 word \<Rightarrow> fault + heap \<times> OutBuffer" where
  "add_uint8 h this v = add_bytes h this [v] 1"

definition add_uint16 :: "endian \<Rightarrow> heap \<Rightarrow> OutBuffer \<Rightarrow> 16 word \<Rightarrow> fault + heap \<times> OutBuffer" where
  "add_uint16 e h this val =
     (let v = htobe16 e val in add_bytes h this (object_repr e 2 v) 2)"

definition add_uint32 :: "endian \<Rightarrow> heap \<Rightarrow> OutBuffer \<Rightarrow> 32 word \<Rightarrow> fault + heap \<times> OutBuffer" where
  "add_uint32 e h this val =
     (let v = htobe32 e val in add_bytes h this (object_repr e 4 v) 4)"

definition add_uint64 :: "endian \<Rightarrow> heap \<Rightarrow> OutBuffer \<Rightarrow> 64 word \<Rightarrow> fault + heap \<times> OutBuffer" where
  "add_uint64 e h this val =
     (let v = htobe64 e val in add_bytes h this (object_repr e 8 v) 8)"

text \<open>
  The signed overloads. A signed value is an \<open>int\<close>; its object representation is
  that of its two's complement bit pattern. \<^verbatim>\<open>htobe16(value)\<close> converts the argument
  to \<^verbatim>\<open>uint16_t\<close> (\<open>word_of_int\<close>), and \<^verbatim>\<open>int16_t v = ...\<close> converts the result back
  (\<open>sint\<close>).
\<close>

definition signed_repr :: "endian \<Rightarrow> nat \<Rightarrow> 'a::len word itself \<Rightarrow> int \<Rightarrow> byte list" where
  "signed_repr e n T v = object_repr e n (word_of_int v :: 'a word)"

definition add_int8 :: "heap \<Rightarrow> OutBuffer \<Rightarrow> int \<Rightarrow> fault + heap \<times> OutBuffer" where
  "add_int8 h this val = add_bytes h this [word_of_int val] 1"

definition add_int16 :: "endian \<Rightarrow> heap \<Rightarrow> OutBuffer \<Rightarrow> int \<Rightarrow> fault + heap \<times> OutBuffer" where
  "add_int16 e h this val =
     (let v = sint (htobe16 e (word_of_int val))
      in add_bytes h this (signed_repr e 2 TYPE(16 word) v) 2)"

definition add_int32 :: "endian \<Rightarrow> heap \<Rightarrow> OutBuffer \<Rightarrow> int \<Rightarrow> fault + heap \<times> OutBuffer" where
  "add_int32 e h this val =
     (let v = sint (htobe32 e (word_of_int val))
      in add_bytes h this (signed_repr e 4 TYPE(32 word) v) 4)"

definition add_int64 :: "endian \<Rightarrow> heap \<Rightarrow> OutBuffer \<Rightarrow> int \<Rightarrow> fault + heap \<times> OutBuffer" where
  "add_int64 e h this val =
     (let v = sint (htobe64 e (word_of_int val))
      in add_bytes h this (signed_repr e 8 TYPE(64 word) v) 8)"

text \<open>
  \<^verbatim>\<open>add(float)\<close> and \<^verbatim>\<open>add(double)\<close>. The functions do no arithmetic on the value:
  they copy its object representation. A floating-point value is therefore given by
  its bit pattern (sign, exponent and fraction, so that the two zeros and every NaN
  payload are different values), stored like an integer of the same width in the byte
  order of the host.
\<close>

type_synonym float_bits = "32 word"
type_synonym double_bits = "64 word"

definition add_float :: "endian \<Rightarrow> heap \<Rightarrow> OutBuffer \<Rightarrow> float_bits \<Rightarrow> fault + heap \<times> OutBuffer" where
  "add_float e h this val = add_bytes h this (object_repr e 4 val) 4"

definition add_double :: "endian \<Rightarrow> heap \<Rightarrow> OutBuffer \<Rightarrow> double_bits \<Rightarrow> fault + heap \<times> OutBuffer" where
  "add_double e h this val = add_bytes h this (object_repr e 8 val) 8"

subsection \<open>A caller's sequence of appends\<close>

text \<open>
  The operand of one call of \<^verbatim>\<open>add\<close>; the constructor of the datatype selects the
  overload, as the static type of the argument does in C++.
\<close>

datatype operand =
    Raw "byte list" "32 word"
  | Str "byte list"
  | UInt8 "8 word"
  | UInt16 "16 word"
  | UInt32 "32 word"
  | UInt64 "64 word"
  | Int8 int
  | Int16 int
  | Int32 int
  | Int64 int
  | Float float_bits
  | Double double_bits

fun add :: "endian \<Rightarrow> heap \<Rightarrow> OutBuffer \<Rightarrow> operand \<Rightarrow> fault + heap \<times> OutBuffer" where
  "add e h this (Raw string sz) = add_raw h this string sz"
| "add e h this (Str string) = add_string h this string"
| "add e h this (UInt8 v) = add_uint8 h this v"
| "add e h this (UInt16 v) = add_uint16 e h this v"
| "add e h this (UInt32 v) = add_uint32 e h this v"
| "add e h this (UInt64 v) = add_uint64 e h this v"
| "add e h this (Int8 v) = add_int8 h this v"
| "add e h this (Int16 v) = add_int16 e h this v"
| "add e h this (Int32 v) = add_int32 e h this v"
| "add e h this (Int64 v) = add_int64 e h this v"
| "add e h this (Float v) = add_float e h this v"
| "add e h this (Double v) = add_double e h this v"

text \<open>Calls of \<^verbatim>\<open>add\<close> one after the other on the same object.\<close>

fun add_all :: "endian \<Rightarrow> heap \<Rightarrow> OutBuffer \<Rightarrow> operand list \<Rightarrow> fault + heap \<times> OutBuffer" where
  "add_all e h this [] = Inr (h, this)"
| "add_all e h this (x # xs) =
     (case add e h this x of
        Inl f \<Rightarrow> Inl f
      | Inr (h', this') \<Rightarrow> add_all e h' this' xs)"

section \<open>The specification's table of encodings\<close>

text \<open>
  The two definitions below follow the table of the specification ("Operand",
  "Bytes written", "Byte-order transform"), not the code: the length of the encoding
  of an operand and the bytes of the encoding. Integers are big-endian, floating-point
  values are in the byte order of the host, spans and strings are verbatim.
\<close>

fun encoded_size :: "operand \<Rightarrow> nat" where
  "encoded_size (Raw string sz) = unat sz"
| "encoded_size (Str string) = length string"
| "encoded_size (UInt8 v) = 1"
| "encoded_size (UInt16 v) = 2"
| "encoded_size (UInt32 v) = 4"
| "encoded_size (UInt64 v) = 8"
| "encoded_size (Int8 v) = 1"
| "encoded_size (Int16 v) = 2"
| "encoded_size (Int32 v) = 4"
| "encoded_size (Int64 v) = 8"
| "encoded_size (Float v) = 4"
| "encoded_size (Double v) = 8"

fun encoded_bytes :: "endian \<Rightarrow> operand \<Rightarrow> byte list" where
  "encoded_bytes e (Raw string sz) = take (unat sz) string"
| "encoded_bytes e (Str string) = string"
| "encoded_bytes e (UInt8 v) = [v]"
| "encoded_bytes e (UInt16 v) = be_bytes 2 v"
| "encoded_bytes e (UInt32 v) = be_bytes 4 v"
| "encoded_bytes e (UInt64 v) = be_bytes 8 v"
| "encoded_bytes e (Int8 v) = [word_of_int v]"
| "encoded_bytes e (Int16 v) = be_bytes 2 (word_of_int v :: 16 word)"
| "encoded_bytes e (Int32 v) = be_bytes 4 (word_of_int v :: 32 word)"
| "encoded_bytes e (Int64 v) = be_bytes 8 (word_of_int v :: 64 word)"
| "encoded_bytes e (Float v) = object_repr e 4 v"
| "encoded_bytes e (Double v) = object_repr e 8 v"

text \<open>
  A raw span is well formed when the pointer has at least as many readable bytes as
  the explicit length says. The other operands are values.
\<close>

fun span_ok :: "operand \<Rightarrow> bool" where
  "span_ok (Raw string sz) = (unat sz \<le> length string)"
| "span_ok _ = True"

text \<open>The caller's obligation: the operand fits the remaining capacity.\<close>

definition fits :: "OutBuffer \<Rightarrow> operand \<Rightarrow> bool" where
  "fits this x = (unat (ob_size this) + encoded_size x \<le> unat (ob_capacity this))"

section \<open>States of a buffer\<close>

text \<open>
  The bytes a consumer reads: \<^verbatim>\<open>size()\<close> bytes from \<^verbatim>\<open>data()\<close>.
\<close>

definition written :: "heap \<Rightarrow> OutBuffer \<Rightarrow> fault + cell list" where
  "written h this = load h (data this) (unat (size_of this))"

text \<open>The whole array of the object: \<^verbatim>\<open>_capacity\<close> cells from \<^verbatim>\<open>data()\<close>.\<close>

definition allocation :: "heap \<Rightarrow> OutBuffer \<Rightarrow> fault + cell list" where
  "allocation h this = load h (data this) (unat (ob_capacity this))"

text \<open>
  "Constructed and usable": the object owns a live array of \<^verbatim>\<open>_capacity\<close> bytes, the
  capacity came from a \<^verbatim>\<open>uint32_t\<close>, and the cursor is \<^verbatim>\<open>_size\<close> bytes into the array.
\<close>

definition usable :: "heap \<Rightarrow> OutBuffer \<Rightarrow> bool" where
  "usable h this =
     (case ob_buffer this of
        None \<Rightarrow> False
      | Some a \<Rightarrow>
          a < length (blocks h) \<and>
          (case blocks h ! a of
             None \<Rightarrow> False
           | Some blk \<Rightarrow>
               length blk = unat (ob_capacity this) \<and>
               unat (ob_capacity this) < 2 ^ 32 \<and>
               unat (ob_size this) \<le> unat (ob_capacity this) \<and>
               ob_current this = Ptr a (unat (ob_size this))))"

text \<open>"Moved-from and inert": what the move constructor leaves behind.\<close>

definition moved_from :: "OutBuffer \<Rightarrow> bool" where
  "moved_from this =
     (ob_buffer this = None \<and> ob_current this = Nullptr \<and> ob_size this = 0 \<and>
      ob_capacity this = 0)"

text \<open>
  The invariant as the specification words it: the number of bytes written lies
  between 0 and the capacity, and the cursor is the base address plus that number.
  Nothing but 0 can be added to a null pointer, and \<open>ptr_add\<close> does not say so: when
  the base address is null, the sum exists only for 0 bytes written, which is the last
  clause.
\<close>

definition invariant :: "OutBuffer \<Rightarrow> bool" where
  "invariant this =
     (0 \<le> uint (ob_size this) \<and> uint (ob_size this) \<le> uint (ob_capacity this) \<and>
      ob_current this = ptr_add (data this) (unat (ob_size this)) \<and>
      (data this = Nullptr \<longrightarrow> ob_size this = 0))"

text \<open>
  \<open>extends h h'\<close>: every array of \<open>h\<close> is still in \<open>h'\<close>, live or released as before
  and of the same length; its content may differ and \<open>h'\<close> may have more arrays.
\<close>

definition extends :: "heap \<Rightarrow> heap \<Rightarrow> bool" where
  "extends h h' =
     (length (blocks h) \<le> length (blocks h') \<and>
      (\<forall>a < length (blocks h).
         map_option length (blocks h' ! a) = map_option length (blocks h ! a)))"

text \<open>
  A program state is the heap and the \<^verbatim>\<open>OutBuffer\<close> objects that exist. A program
  starts with no object and an empty heap, and then constructs, copies, moves and
  appends. A step whose outcome is a fault (an allocation failure, an undefined access)
  leads to no state.
\<close>

inductive reachable :: "endian \<Rightarrow> heap \<Rightarrow> OutBuffer list \<Rightarrow> bool" for e :: endian where
  start: "reachable e \<lparr>blocks = [], avail = m\<rparr> []"
| construct:
    "reachable e h objs \<Longrightarrow> OutBuffer_ctor h capacity = Inr (h', this) \<Longrightarrow>
     reachable e h' (objs @ [this])"
| copy:
    "reachable e h objs \<Longrightarrow> i < length objs \<Longrightarrow>
     OutBuffer_copy h (objs ! i) = Inr (h', this) \<Longrightarrow>
     reachable e h' (objs @ [this])"
| move:
    "reachable e h objs \<Longrightarrow> i < length objs \<Longrightarrow>
     OutBuffer_move (objs ! i) = (this, that) \<Longrightarrow>
     reachable e h (objs[i := that] @ [this])"
| append:
    "reachable e h objs \<Longrightarrow> i < length objs \<Longrightarrow> fits (objs ! i) x \<Longrightarrow>
     add e h (objs ! i) x = Inr (h', this) \<Longrightarrow>
     reachable e h' (objs[i := this])"

section \<open>Byte order: the swap and the two readings\<close>

text \<open>The representations of 2, 4 and 8 bytes, written out.\<close>

lemma le_bytes_2: "le_bytes 2 w = [ucast w, ucast (drop_bit 8 w)]"
proof -
  have "(2::nat) = Suc (Suc 0)" by simp
  then show ?thesis by (simp only: le_bytes.simps)
qed

lemma le_bytes_4:
  "le_bytes 4 w = [ucast w, ucast (drop_bit 8 w), ucast (drop_bit 16 w), ucast (drop_bit 24 w)]"
proof -
  have "(4::nat) = Suc (Suc (Suc (Suc 0)))" by simp
  then have "le_bytes 4 w =
      [ucast w, ucast (drop_bit 8 w), ucast (drop_bit 8 (drop_bit 8 w)),
       ucast (drop_bit 8 (drop_bit 8 (drop_bit 8 w)))]"
    by (simp only: le_bytes.simps)
  then show ?thesis by simp
qed

lemma le_bytes_8:
  "le_bytes 8 w =
     [ucast w, ucast (drop_bit 8 w), ucast (drop_bit 16 w), ucast (drop_bit 24 w),
      ucast (drop_bit 32 w), ucast (drop_bit 40 w), ucast (drop_bit 48 w),
      ucast (drop_bit 56 w)]"
proof -
  have "(8::nat) = Suc (Suc (Suc (Suc (Suc (Suc (Suc (Suc 0)))))))" by simp
  then have "le_bytes 8 w =
      [ucast w, ucast (drop_bit 8 w), ucast (drop_bit 8 (drop_bit 8 w)),
       ucast (drop_bit 8 (drop_bit 8 (drop_bit 8 w))),
       ucast (drop_bit 8 (drop_bit 8 (drop_bit 8 (drop_bit 8 w)))),
       ucast (drop_bit 8 (drop_bit 8 (drop_bit 8 (drop_bit 8 (drop_bit 8 w))))),
       ucast (drop_bit 8 (drop_bit 8 (drop_bit 8 (drop_bit 8 (drop_bit 8 (drop_bit 8 w)))))),
       ucast (drop_bit 8 (drop_bit 8 (drop_bit 8 (drop_bit 8 (drop_bit 8 (drop_bit 8
         (drop_bit 8 w)))))))]"
    by (simp only: le_bytes.simps)
  then show ?thesis by simp
qed

text \<open>The constants of the swaps are shifted masks of eight bits.\<close>

lemma mask_consts16: "(0xff :: 16 word) = mask 8"
  by (simp add: mask_eq_exp_minus_1)

lemma mask_consts32:
  "(0xff :: 32 word) = mask 8"
  "(0xff00 :: 32 word) = push_bit 8 (mask 8)"
  "(0xff0000 :: 32 word) = push_bit 16 (mask 8)"
  "(0xff000000 :: 32 word) = push_bit 24 (mask 8)"
  by (simp_all add: mask_eq_exp_minus_1)

lemma mask_consts64:
  "(0xff :: 64 word) = mask 8"
  "(0xff00 :: 64 word) = push_bit 8 (mask 8)"
  "(0xff0000 :: 64 word) = push_bit 16 (mask 8)"
  "(0xff000000 :: 64 word) = push_bit 24 (mask 8)"
  "(0xff00000000 :: 64 word) = push_bit 32 (mask 8)"
  "(0xff0000000000 :: 64 word) = push_bit 40 (mask 8)"
  "(0xff000000000000 :: 64 word) = push_bit 48 (mask 8)"
  "(0xff00000000000000 :: 64 word) = push_bit 56 (mask 8)"
  by (simp_all add: mask_eq_exp_minus_1)

text \<open>
  The little-endian representation of the swapped value is the big-endian
  representation of the value: each byte is compared bit by bit.
\<close>

lemma le_bytes_bswap16: "le_bytes 2 (bswap16 x) = be_bytes 2 x"
  unfolding be_bytes_def bswap16_def le_bytes_2 mask_consts16
  apply simp
  apply (intro conjI; rule bit_word_eqI; auto simp add: bit_simps)
  done

lemma le_bytes_bswap32: "le_bytes 4 (bswap32 x) = be_bytes 4 x"
  unfolding be_bytes_def bswap32_def le_bytes_4 mask_consts32
  apply simp
  apply (intro conjI; rule bit_word_eqI; auto simp add: bit_simps)
  done

lemma le_bytes_bswap64: "le_bytes 8 (bswap64 x) = be_bytes 8 x"
  unfolding be_bytes_def bswap64_def le_bytes_8 mask_consts64
  apply simp
  apply (intro conjI; rule bit_word_eqI; auto simp add: bit_simps)
  done

text \<open>Reading the big-endian bytes of a value gives the value: bit by bit, byte by byte.\<close>

lemma be_word_be_bytes16: "be_word (be_bytes 2 (x :: 16 word)) = x"
  unfolding be_bytes_def be_word_def le_bytes_2
  apply simp
  apply (rule bit_word_eqI; auto simp: bit_simps)
  done

lemma be_word_be_bytes32: "be_word (be_bytes 4 (x :: 32 word)) = x"
proof (rule bit_word_eqI)
  fix n
  assume "n < LENGTH(32)"
  then consider "n < 8" | "8 \<le> n" "n < 16" | "16 \<le> n" "n < 24" | "24 \<le> n" "n < 32"
    by fastforce
  then show "bit (be_word (be_bytes 4 x) :: 32 word) n = bit x n"
    unfolding be_bytes_def be_word_def le_bytes_4
    by cases (auto simp: bit_simps)
qed

lemma be_word_be_bytes64: "be_word (be_bytes 8 (x :: 64 word)) = x"
proof (rule bit_word_eqI)
  fix n
  assume "n < LENGTH(64)"
  then consider "n < 8" | "8 \<le> n" "n < 16" | "16 \<le> n" "n < 24" | "24 \<le> n" "n < 32"
    | "32 \<le> n" "n < 40" | "40 \<le> n" "n < 48" | "48 \<le> n" "n < 56" | "56 \<le> n" "n < 64"
    by fastforce
  then show "bit (be_word (be_bytes 8 x) :: 64 word) n = bit x n"
    unfolding be_bytes_def be_word_def le_bytes_8
    by cases (auto simp: bit_simps)
qed

lemma length_le_bytes [simp]: "length (le_bytes n w) = n"
  by (induction n arbitrary: w) simp_all

lemma length_be_bytes [simp]: "length (be_bytes n w) = n"
  by (simp add: be_bytes_def)

lemma length_object_repr [simp]: "length (object_repr e n w) = n"
  by (cases e) (simp_all add: object_repr_def)

lemma object_repr_htobe16: "object_repr e 2 (htobe16 e v) = be_bytes 2 v"
  by (cases e) (simp_all add: object_repr_def htobe16_def le_bytes_bswap16)

lemma object_repr_htobe32: "object_repr e 4 (htobe32 e v) = be_bytes 4 v"
  by (cases e) (simp_all add: object_repr_def htobe32_def le_bytes_bswap32)

lemma object_repr_htobe64: "object_repr e 8 (htobe64 e v) = be_bytes 8 v"
  by (cases e) (simp_all add: object_repr_def htobe64_def le_bytes_bswap64)

section \<open>The code against the table of encodings\<close>

lemma length_encoded_bytes: "span_ok x \<Longrightarrow> length (encoded_bytes e x) = encoded_size x"
  by (cases x) simp_all

lemma add_bytes_take: "n \<le> length src \<Longrightarrow> add_bytes h this (take n src) n = add_bytes h this src n"
  by (simp add: add_bytes_def memcpy_def)

lemma add_bytes_append: "n \<le> length src \<Longrightarrow> add_bytes h this (src @ ys) n = add_bytes h this src n"
  by (simp add: add_bytes_def memcpy_def)

lemma unat_string_size:
  assumes "length s < 2 ^ 32"
  shows "unat (ucast (of_nat (length s) :: size_t) :: 32 word) = length s"
proof -
  have "length s < 2 ^ 64" using assms by simp
  then have "unat (of_nat (length s) :: size_t) = length s"
    by (simp add: unat_of_nat)
  then show ?thesis using assms
    by (simp add: unsigned_ucast_eq take_bit_nat_eq_self)
qed

lemma add_string_encoded:
  "length s < 2 ^ 32 \<Longrightarrow> add_string h this s = add_bytes h this s (length s)"
  by (simp add: add_string_def add_raw_def unat_string_size add_bytes_append)

lemma add_encoded:
  assumes "span_ok x" "encoded_size x < 2 ^ 32"
  shows "add e h this x = add_bytes h this (encoded_bytes e x) (encoded_size x)"
proof (cases x)
  case (Raw string sz)
  with assms show ?thesis by (simp add: add_raw_def add_bytes_take)
next
  case (Str string)
  with assms show ?thesis by (simp add: add_string_encoded)
qed (simp_all add: add_uint8_def add_uint16_def add_uint32_def add_uint64_def
      add_int8_def add_int16_def add_int32_def add_int64_def add_float_def add_double_def
      signed_repr_def object_repr_htobe16 object_repr_htobe32 object_repr_htobe64)

section \<open>One append on a usable object\<close>

lemma unat_size_add:
  fixes s :: size_t
  assumes "unat s + n \<le> c" "c < 2 ^ 32"
  shows "unat (s + of_nat n) = unat s + n"
proof -
  have "unat s + n < 2 ^ 64" using assms by simp
  then show ?thesis by (simp add: unat_word_ariths unat_of_nat)
qed

text \<open>What a usable object looks like.\<close>

lemma usableE:
  assumes "usable h this"
  obtains a blk where "ob_buffer this = Some a" "a < length (blocks h)"
    "blocks h ! a = Some blk" "length blk = unat (ob_capacity this)"
    "unat (ob_capacity this) < 2 ^ 32" "unat (ob_size this) \<le> unat (ob_capacity this)"
    "ob_current this = Ptr a (unat (ob_size this))"
  using assms by (auto simp: usable_def split: option.splits)

lemma usableI:
  assumes "ob_buffer this = Some a" "a < length (blocks h)"
    "blocks h ! a = Some blk" "length blk = unat (ob_capacity this)"
    "unat (ob_capacity this) < 2 ^ 32" "unat (ob_size this) \<le> unat (ob_capacity this)"
    "ob_current this = Ptr a (unat (ob_size this))"
  shows "usable h this"
  using assms by (simp add: usable_def)

lemma written_usable:
  assumes "ob_buffer this = Some a" "a < length (blocks h)" "blocks h ! a = Some blk"
    "unat (ob_size this) \<le> length blk"
  shows "written h this = Inr (take (unat (ob_size this)) blk)"
  using assms by (simp add: written_def data_def get_def size_of_def load_def)

lemma allocation_usable:
  assumes "ob_buffer this = Some a" "a < length (blocks h)" "blocks h ! a = Some blk"
    "length blk = unat (ob_capacity this)"
  shows "allocation h this = Inr blk"
  using assms by (simp add: allocation_def data_def get_def load_def)

text \<open>The heap after the bytes \<open>bs\<close> were stored at offset \<open>s\<close> of block \<open>a\<close>.\<close>

lemma add_bytes_usable:
  assumes u: "usable h this" and n: "n \<le> length src"
    and f: "unat (ob_size this) + n \<le> unat (ob_capacity this)"
  obtains a blk where
    "ob_buffer this = Some a" "a < length (blocks h)" "blocks h ! a = Some blk"
    "length blk = unat (ob_capacity this)"
    "add_bytes h this src n =
       Inr (h\<lparr>blocks := (blocks h)[a := Some (take (unat (ob_size this)) blk @ map Some (take n src) @
                                          drop (unat (ob_size this) + n) blk)]\<rparr>,
            this\<lparr>ob_current := Ptr a (unat (ob_size this) + n),
                 ob_size := ob_size this + of_nat n\<rparr>)"
proof -
  from u obtain a blk where a: "ob_buffer this = Some a" "a < length (blocks h)"
    "blocks h ! a = Some blk" "length blk = unat (ob_capacity this)"
    "ob_current this = Ptr a (unat (ob_size this))"
    by (rule usableE)
  have "add_bytes h this src n =
       Inr (h\<lparr>blocks := (blocks h)[a := Some (take (unat (ob_size this)) blk @ map Some (take n src) @
                                          drop (unat (ob_size this) + n) blk)]\<rparr>,
            this\<lparr>ob_current := Ptr a (unat (ob_size this) + n),
                 ob_size := ob_size this + of_nat n\<rparr>)"
    using a n f by (simp add: add_bytes_def memcpy_def store_def min_absorb2)
  with a that show thesis by blast
qed

text \<open>One append that fits: the outcome, the heap and the object after it.\<close>

lemma add_fits:
  assumes u: "usable h this" and ok: "span_ok x" and f: "fits this x"
  obtains a blk h' this' where
    "ob_buffer this = Some a" "a < length (blocks h)" "blocks h ! a = Some blk"
    "length blk = unat (ob_capacity this)"
    "add e h this x = Inr (h', this')"
    "blocks h' = (blocks h)[a := Some (take (unat (ob_size this)) blk @ map Some (encoded_bytes e x) @
                                       drop (unat (ob_size this) + encoded_size x) blk)]"
    "avail h' = avail h"
    "ob_buffer this' = Some a" "ob_capacity this' = ob_capacity this"
    "ob_current this' = Ptr a (unat (ob_size this) + encoded_size x)"
    "ob_size this' = ob_size this + of_nat (encoded_size x)"
    "unat (ob_size this') = unat (ob_size this) + encoded_size x"
    "usable h' this'"
proof -
  from u have cap: "unat (ob_capacity this) < 2 ^ 32" by (rule usableE)
  from f have f': "unat (ob_size this) + encoded_size x \<le> unat (ob_capacity this)"
    by (simp add: fits_def)
  with cap have small: "encoded_size x < 2 ^ 32" by simp
  have len: "encoded_size x \<le> length (encoded_bytes e x)"
    using ok by (simp add: length_encoded_bytes)
  have un: "unat (ob_size this + of_nat (encoded_size x)) = unat (ob_size this) + encoded_size x"
    using f' cap by (rule unat_size_add)
  from u len f' obtain a blk where a: "ob_buffer this = Some a" "a < length (blocks h)"
    "blocks h ! a = Some blk" "length blk = unat (ob_capacity this)"
    and r: "add_bytes h this (encoded_bytes e x) (encoded_size x) =
       Inr (h\<lparr>blocks := (blocks h)[a := Some (take (unat (ob_size this)) blk @
                  map Some (take (encoded_size x) (encoded_bytes e x)) @
                  drop (unat (ob_size this) + encoded_size x) blk)]\<rparr>,
            this\<lparr>ob_current := Ptr a (unat (ob_size this) + encoded_size x),
                 ob_size := ob_size this + of_nat (encoded_size x)\<rparr>)"
    by (rule add_bytes_usable)
  let ?h' = "h\<lparr>blocks := (blocks h)[a := Some (take (unat (ob_size this)) blk @
                  map Some (encoded_bytes e x) @
                  drop (unat (ob_size this) + encoded_size x) blk)]\<rparr>"
  let ?t' = "this\<lparr>ob_current := Ptr a (unat (ob_size this) + encoded_size x),
                 ob_size := ob_size this + of_nat (encoded_size x)\<rparr>"
  have tk: "take (encoded_size x) (encoded_bytes e x) = encoded_bytes e x"
    using ok by (simp add: length_encoded_bytes)
  have res: "add e h this x = Inr (?h', ?t')"
    using r by (simp add: add_encoded [OF ok small] tk)
  have us: "usable ?h' ?t'"
    using a cap f' un ok by (simp add: usable_def length_encoded_bytes)
  show thesis
    by (rule that [OF a res _ _ _ _ _ _ _ us]) (simp_all add: a un)
qed

lemma take_block_after:
  assumes "s + n \<le> length blk" "length bs = n"
  shows "take (s + n) (take s blk @ bs @ drop (s + n) blk) = take s blk @ bs"
    and "take s (take s blk @ bs @ drop (s + n) blk) = take s blk"
    and "length (take s blk @ bs @ drop (s + n) blk) = length blk"
  using assms by (simp_all add: min_absorb2)

text \<open>The written bytes grow at the end by the encoding of the operand.\<close>

lemma add_fits_written:
  assumes u: "usable h this" and ok: "span_ok x" and f: "fits this x"
    and w: "written h this = Inr ws"
  obtains h' this' where "add e h this x = Inr (h', this')" "usable h' this'"
    "ob_capacity this' = ob_capacity this" "ob_buffer this' = ob_buffer this"
    "unat (ob_size this') = unat (ob_size this) + encoded_size x"
    "written h' this' = Inr (ws @ map Some (encoded_bytes e x))"
proof -
  from u ok f obtain a blk h' this' where r:
    "ob_buffer this = Some a" "a < length (blocks h)" "blocks h ! a = Some blk"
    "length blk = unat (ob_capacity this)"
    "add e h this x = Inr (h', this')"
    "blocks h' = (blocks h)[a := Some (take (unat (ob_size this)) blk @ map Some (encoded_bytes e x) @
                                       drop (unat (ob_size this) + encoded_size x) blk)]"
    "ob_buffer this' = Some a" "ob_capacity this' = ob_capacity this"
    "unat (ob_size this') = unat (ob_size this) + encoded_size x"
    "usable h' this'"
    by (rule add_fits [where e = e]) blast
  from f r have le: "unat (ob_size this) + encoded_size x \<le> length blk"
    by (simp add: fits_def)
  from r le have "written h this = Inr (take (unat (ob_size this)) blk)"
    by (intro written_usable) simp_all
  with w have ws: "ws = take (unat (ob_size this)) blk" by simp
  have "written h' this' =
      Inr (take (unat (ob_size this')) (take (unat (ob_size this)) blk @ map Some (encoded_bytes e x) @
                                       drop (unat (ob_size this) + encoded_size x) blk))"
    using r le ok by (intro written_usable [where a = a]) (simp_all add: length_encoded_bytes)
  also have "\<dots> = Inr (ws @ map Some (encoded_bytes e x))"
    using le ok r ws by (simp add: take_block_after length_encoded_bytes)
  finally have "written h' this' = Inr (ws @ map Some (encoded_bytes e x))" .
  with r that show thesis by simp
qed

lemma add_all_fits:
  assumes "usable h this" "list_all span_ok xs"
    "unat (ob_size this) + sum_list (map encoded_size xs) \<le> unat (ob_capacity this)"
    "written h this = Inr ws"
  shows "\<exists>h' this'. add_all e h this xs = Inr (h', this') \<and> usable h' this' \<and>
           ob_capacity this' = ob_capacity this \<and>
           unat (ob_size this') = unat (ob_size this) + sum_list (map encoded_size xs) \<and>
           written h' this' = Inr (ws @ map Some (concat (map (encoded_bytes e) xs)))"
  using assms
proof (induction xs arbitrary: h this ws)
  case Nil
  then show ?case by simp
next
  case (Cons x xs)
  from Cons.prems have ok: "span_ok x" and oks: "list_all span_ok xs" by simp_all
  from Cons.prems have f: "fits this x" by (simp add: fits_def)
  from Cons.prems(1) ok f Cons.prems(4) obtain h1 t1 where s1:
    "add e h this x = Inr (h1, t1)" "usable h1 t1"
    "ob_capacity t1 = ob_capacity this"
    "unat (ob_size t1) = unat (ob_size this) + encoded_size x"
    "written h1 t1 = Inr (ws @ map Some (encoded_bytes e x))"
    by (rule add_fits_written [where e = e]) blast
  from Cons.prems s1 have room:
    "unat (ob_size t1) + sum_list (map encoded_size xs) \<le> unat (ob_capacity t1)" by simp
  from Cons.IH [OF s1(2) oks room s1(5)] obtain h' this' where s2:
    "add_all e h1 t1 xs = Inr (h', this')" "usable h' this'"
    "ob_capacity this' = ob_capacity t1"
    "unat (ob_size this') = unat (ob_size t1) + sum_list (map encoded_size xs)"
    "written h' this' = Inr ((ws @ map Some (encoded_bytes e x)) @ map Some (concat (map (encoded_bytes e) xs)))"
    by blast
  from s1 s2 show ?case by simp
qed

lemma ctor_usable:
  assumes "unat capacity \<le> avail h"
  obtains h' this where "OutBuffer_ctor h capacity = Inr (h', this)" "usable h' this"
    "ob_size this = 0" "unat (ob_capacity this) = unat capacity" "written h' this = Inr []"
    "ob_buffer this = Some (length (blocks h))"
    "blocks h' = blocks h @ [Some (replicate (unat capacity) None)]"
proof -
  let ?h' = "h\<lparr>blocks := blocks h @ [Some (replicate (unat capacity) None)], avail := avail h - unat capacity\<rparr>"
  let ?t = "\<lparr>ob_buffer = Some (length (blocks h)), ob_current = Ptr (length (blocks h)) 0, ob_size = 0,
                    ob_capacity = ucast capacity\<rparr>"
  have r: "OutBuffer_ctor h capacity = Inr (?h', ?t)"
    using assms by (simp add: OutBuffer_ctor_def new_array_def get_def)
  have lt: "unat capacity < 2 ^ 32" using unsigned_less [of capacity] by simp
  have c: "unat (ucast capacity :: size_t) = unat capacity"
    using lt by (simp add: unsigned_ucast_eq take_bit_nat_eq_self)
  have u: "usable ?h' ?t" using lt by (simp add: usable_def c)
  have w: "written ?h' ?t = Inr []"
    by (simp add: written_def data_def get_def size_of_def load_def)
  show thesis by (rule that [OF r u _ _ w]) (simp_all add: c)
qed

lemma ptr_add_cursor: "ptr_add (Ptr a s) n = Ptr a (s + n)"
  by simp

text \<open>The whole array before and after one append that fits.\<close>

lemma add_fits_allocation:
  assumes u: "usable h this" and ok: "span_ok x" and f: "fits this x"
    and al: "allocation h this = Inr blk"
  obtains h' this' where "add e h this x = Inr (h', this')" "usable h' this'"
    "allocation h' this' =
       Inr (take (unat (ob_size this)) blk @ map Some (encoded_bytes e x) @
            drop (unat (ob_size this) + encoded_size x) blk)"
    "length blk = unat (ob_capacity this)"
    "ob_capacity this' = ob_capacity this" "data this' = data this"
    "ob_size this' = ob_size this + of_nat (encoded_size x)"
    "unat (ob_size this') = unat (ob_size this) + encoded_size x"
    "ob_current this' = ptr_add (ob_current this) (encoded_size x)"
    "load h' (ob_current this) (encoded_size x) = Inr (map Some (encoded_bytes e x))"
    "written h this = Inr (take (unat (ob_size this)) blk)"
    "load h' (data this) (unat (ob_size this)) = Inr (take (unat (ob_size this)) blk)"
    "written h' this' = Inr (take (unat (ob_size this)) blk @ map Some (encoded_bytes e x))"
proof -
  from u ok f obtain a blk0 h' this' where r:
    "ob_buffer this = Some a" "a < length (blocks h)" "blocks h ! a = Some blk0"
    "length blk0 = unat (ob_capacity this)"
    "add e h this x = Inr (h', this')"
    "blocks h' = (blocks h)[a := Some (take (unat (ob_size this)) blk0 @ map Some (encoded_bytes e x) @
                                       drop (unat (ob_size this) + encoded_size x) blk0)]"
    "ob_buffer this' = Some a" "ob_capacity this' = ob_capacity this"
    "ob_current this' = Ptr a (unat (ob_size this) + encoded_size x)"
    "ob_size this' = ob_size this + of_nat (encoded_size x)"
    "unat (ob_size this') = unat (ob_size this) + encoded_size x"
    "usable h' this'"
    by (rule add_fits [where e = e]) blast
  from r have "allocation h this = Inr blk0" by (intro allocation_usable) simp_all
  with al have blk: "blk0 = blk" by simp
  from f r have le: "unat (ob_size this) + encoded_size x \<le> length blk0"
    by (simp add: fits_def)
  from u r have cur: "ob_current this = Ptr a (unat (ob_size this))"
    by (auto elim: usableE)
  have len: "length (encoded_bytes e x) = encoded_size x"
    using ok by (rule length_encoded_bytes)
  have al': "allocation h' this' =
       Inr (take (unat (ob_size this)) blk0 @ map Some (encoded_bytes e x) @
            drop (unat (ob_size this) + encoded_size x) blk0)"
    using r le len by (intro allocation_usable [where a = a]) simp_all
  have ld: "load h' (ob_current this) (encoded_size x) = Inr (map Some (encoded_bytes e x))"
    using r le len cur by (simp add: load_def)
  have d: "data this' = data this" using r by (simp add: data_def)
  have c: "ob_current this' = ptr_add (ob_current this) (encoded_size x)"
    using r cur by simp
  have w: "written h this = Inr (take (unat (ob_size this)) blk0)"
    using r le by (intro written_usable) simp_all
  have old: "load h' (data this) (unat (ob_size this)) = Inr (take (unat (ob_size this)) blk0)"
    using r le len by (simp add: load_def data_def get_def min_absorb2)
  have w': "written h' this' = Inr (take (unat (ob_size this)) blk0 @ map Some (encoded_bytes e x))"
    using r le len
    by (simp add: written_def size_of_def load_def data_def get_def take_block_after)
  from r al' ld d c blk w old w' that show thesis by simp
qed

lemma host_word_object_repr32: "host_word e (object_repr e 4 (v :: 32 word)) = v"
  by (cases e) (simp_all add: host_word_def object_repr_def be_word_be_bytes32
      be_word_be_bytes32 [unfolded be_bytes_def] be_bytes_def)

lemma host_word_object_repr64: "host_word e (object_repr e 8 (v :: 64 word)) = v"
  by (cases e) (simp_all add: host_word_def object_repr_def
      be_word_be_bytes64 [unfolded be_bytes_def] be_bytes_def)

text \<open>One append of a value whose encoding has a fixed length.\<close>

lemma add_value:
  assumes u: "usable h this" and al: "allocation h this = Inr blk" and f: "fits this x"
    and ok: "span_ok x"
  shows "\<exists>h' this'.
           add e h this x = Inr (h', this') \<and>
           unat (size_of this') = unat (size_of this) + encoded_size x \<and>
           allocation h' this' =
             Inr (take (unat (size_of this)) blk @ map Some (encoded_bytes e x) @
                  drop (unat (size_of this) + encoded_size x) blk) \<and>
           load h' (ob_current this) (encoded_size x) = Inr (map Some (encoded_bytes e x))"
proof -
  from u ok f al obtain h' this' where "add e h this x = Inr (h', this')"
    "allocation h' this' =
       Inr (take (unat (ob_size this)) blk @ map Some (encoded_bytes e x) @
            drop (unat (ob_size this) + encoded_size x) blk)"
    "unat (ob_size this') = unat (ob_size this) + encoded_size x"
    "load h' (ob_current this) (encoded_size x) = Inr (map Some (encoded_bytes e x))"
    by (rule add_fits_allocation [where e = e]) blast
  then show ?thesis by (simp add: size_of_def)
qed

section \<open>Usable objects stay usable\<close>

lemma extends_refl: "extends h h"
  by (simp add: extends_def)

lemma usable_extends:
  assumes "usable h this" "extends h h'"
  shows "usable h' this"
proof -
  from assms(1) obtain a blk where a: "ob_buffer this = Some a" "a < length (blocks h)"
    "blocks h ! a = Some blk" "length blk = unat (ob_capacity this)"
    "unat (ob_capacity this) < 2 ^ 32" "unat (ob_size this) \<le> unat (ob_capacity this)"
    "ob_current this = Ptr a (unat (ob_size this))"
    by (rule usableE)
  from assms(2) a have "a < length (blocks h')"
    and "map_option length (blocks h' ! a) = Some (length blk)"
    by (simp_all add: extends_def)
  then obtain blk' where "blocks h' ! a = Some blk'" "length blk' = length blk"
    by (auto simp: map_option_case split: option.splits)
  with a \<open>a < length (blocks h')\<close> show ?thesis
    by (intro usableI [where a = a and blk = blk']) simp_all
qed

lemma extends_update:
  assumes "a < length (blocks h)" "blocks h ! a = Some blk" "length blk' = length blk"
    "blocks h' = (blocks h)[a := Some blk']"
  shows "extends h h'"
  using assms by (auto simp: extends_def nth_list_update)

lemma extends_snoc:
  assumes "blocks h' = blocks h @ [b]"
  shows "extends h h'"
  using assms by (simp add: extends_def nth_append)

text \<open>The constructor.\<close>

lemma ctor_result:
  assumes "OutBuffer_ctor h capacity = Inr (h', this)"
  shows "extends h h'" "usable h' this"
proof -
  from assms have av: "unat capacity \<le> avail h"
    by (auto simp: OutBuffer_ctor_def new_array_def split: if_splits)
  then obtain h1 t1 where r: "OutBuffer_ctor h capacity = Inr (h1, t1)" "usable h1 t1"
    "blocks h1 = blocks h @ [Some (replicate (unat capacity) None)]"
    by (rule ctor_usable) blast
  with assms have "h1 = h'" "t1 = this" by simp_all
  with r show "extends h h'" "usable h' this" by (auto intro: extends_snoc)
qed

text \<open>The copy constructor on a usable object.\<close>

lemma copy_usable:
  assumes u: "usable h that" and av: "unat (ob_capacity that) \<le> avail h"
  obtains a blk h' this where
    "ob_buffer that = Some a" "a < length (blocks h)" "blocks h ! a = Some blk"
    "OutBuffer_copy h that = Inr (h', this)"
    "blocks h' = blocks h @ [Some (take (unat (ob_size that)) blk @
                                   replicate (unat (ob_capacity that) - unat (ob_size that)) None)]"
    "ob_buffer this = Some (length (blocks h))"
    "ob_current this = Ptr (length (blocks h)) (unat (ob_size that))"
    "ob_size this = ob_size that" "ob_capacity this = ob_capacity that"
proof -
  from u obtain a blk where a: "ob_buffer that = Some a" "a < length (blocks h)"
    "blocks h ! a = Some blk" "length blk = unat (ob_capacity that)"
    "unat (ob_size that) \<le> unat (ob_capacity that)"
    by (rule usableE)
  let ?n = "length (blocks h)"
  let ?t = "\<lparr>ob_buffer = Some ?n, ob_current = Ptr ?n (unat (ob_size that)),
                ob_size = ob_size that, ob_capacity = ob_capacity that\<rparr>"
  let ?h' = "h\<lparr>blocks := blocks h @ [Some (take (unat (ob_size that)) blk @
                                   replicate (unat (ob_capacity that) - unat (ob_size that)) None)],
               avail := avail h - unat (ob_capacity that)\<rparr>"
  have "OutBuffer_copy h that = Inr (?h', ?t)"
    using a av
    by (simp add: OutBuffer_copy_def new_array_def memcpy_heap_def load_def store_def get_def
        nth_append min_absorb2 Let_def)
  with a that [of a blk ?h' ?t] show thesis by simp
qed

lemma copy_result:
  assumes c: "OutBuffer_copy h that = Inr (h', this)" and s: "usable h that \<or> moved_from that"
  shows "extends h h'" "usable h' this"
proof -
  from s have u: "usable h that"
  proof
    assume "moved_from that"
    then have "OutBuffer_copy h that = Inl UndefinedBehaviour"
      by (simp add: moved_from_def OutBuffer_copy_def new_array_def memcpy_heap_def load_def
          get_def Let_def)
    with c show ?thesis by simp
  qed
  from c have av: "unat (ob_capacity that) \<le> avail h"
    by (auto simp: OutBuffer_copy_def new_array_def split: if_splits)
  from u obtain a0 blk0 where a0: "ob_buffer that = Some a0" "blocks h ! a0 = Some blk0"
    "length blk0 = unat (ob_capacity that)" "unat (ob_capacity that) < 2 ^ 32"
    "unat (ob_size that) \<le> unat (ob_capacity that)"
    by (rule usableE)
  from u av obtain a blk h1 t1 where r: "ob_buffer that = Some a" "blocks h ! a = Some blk"
    "OutBuffer_copy h that = Inr (h1, t1)"
    "blocks h1 = blocks h @ [Some (take (unat (ob_size that)) blk @
                                   replicate (unat (ob_capacity that) - unat (ob_size that)) None)]"
    "ob_buffer t1 = Some (length (blocks h))"
    "ob_current t1 = Ptr (length (blocks h)) (unat (ob_size that))"
    "ob_size t1 = ob_size that" "ob_capacity t1 = ob_capacity that"
    by (rule copy_usable) blast
  with c have eq: "h1 = h'" "t1 = this" by simp_all
  from r a0 have "blk = blk0" by simp
  from r eq show "extends h h'" by (auto intro: extends_snoc)
  show "usable h' this"
    using r eq a0 \<open>blk = blk0\<close>
    by (intro usableI [where a = "length (blocks h)"
          and blk = "take (unat (ob_size that)) blk @
                     replicate (unat (ob_capacity that) - unat (ob_size that)) None"])
      (simp_all add: min_absorb2)
qed

text \<open>The move constructor.\<close>

lemma move_result:
  assumes "OutBuffer_move that = (this, that')"
  shows "this = that" "moved_from that'"
  using assms by (auto simp: OutBuffer_move_def moved_from_def)

text \<open>An append that returns.\<close>

lemma add_bytes_null:
  "ob_current this = Nullptr \<Longrightarrow> add_bytes h this src n = Inl UndefinedBehaviour"
  by (simp add: add_bytes_def memcpy_def store_def)

lemma add_null:
  "ob_current this = Nullptr \<Longrightarrow> add e h this x = Inl UndefinedBehaviour"
  by (cases x)
    (simp_all add: add_raw_def add_string_def add_uint8_def add_uint16_def add_uint32_def
      add_uint64_def add_int8_def add_int16_def add_int32_def add_int64_def add_float_def
      add_double_def add_bytes_null Let_def)

lemma add_Inr_span_ok:
  assumes "add e h this x = Inr r"
  shows "span_ok x"
proof (cases x)
  case (Raw string sz)
  with assms show ?thesis
    by (auto simp: add_raw_def add_bytes_def memcpy_def split: if_splits)
qed simp_all

lemma add_result:
  assumes a: "add e h this x = Inr (h', this')" and f: "fits this x"
    and s: "usable h this \<or> moved_from this"
  shows "extends h h'" "usable h' this'"
proof -
  from s have u: "usable h this"
  proof
    assume "moved_from this"
    then have "add e h this x = Inl UndefinedBehaviour"
      by (simp add: moved_from_def add_null)
    with a show ?thesis by simp
  qed
  from a have ok: "span_ok x" by (rule add_Inr_span_ok)
  from u ok f obtain b blk h1 t1 where r:
    "b < length (blocks h)" "blocks h ! b = Some blk"
    "length blk = unat (ob_capacity this)"
    "add e h this x = Inr (h1, t1)"
    "blocks h1 = (blocks h)[b := Some (take (unat (ob_size this)) blk @ map Some (encoded_bytes e x) @
                                       drop (unat (ob_size this) + encoded_size x) blk)]"
    "usable h1 t1"
    by (rule add_fits [where e = e]) blast
  with a have eq: "h1 = h'" "t1 = this'" by simp_all
  from f r have le: "unat (ob_size this) + encoded_size x \<le> length blk"
    by (simp add: fits_def)
  have len: "length (take (unat (ob_size this)) blk @ map Some (encoded_bytes e x) @
                                       drop (unat (ob_size this) + encoded_size x) blk) = length blk"
    using le ok by (simp add: length_encoded_bytes)
  have "extends h h1"
    using r(1) r(2) len r(5) by (rule extends_update)
  with eq show "extends h h'" by simp
  from r eq show "usable h' this'" by simp
qed

lemma usable_invariant: "usable h this \<Longrightarrow> invariant this"
  by (erule usableE) (simp add: invariant_def data_def get_def word_le_nat_alt [symmetric] word_le_def)

lemma moved_from_invariant: "moved_from this \<Longrightarrow> invariant this"
  by (simp add: moved_from_def invariant_def data_def get_def)

text \<open>
  The invariant is strict at a null base address: an object that lost its array and
  kept its size does not satisfy it.
\<close>

lemma invariant_null_base:
  "invariant this \<Longrightarrow> ob_buffer this = None \<Longrightarrow> ob_size this = 0 \<and> ob_current this = Nullptr"
  by (simp add: invariant_def data_def get_def)

lemma invariant_rejects_kept_size:
  "\<not> invariant \<lparr>ob_buffer = None, ob_current = Nullptr, ob_size = 2, ob_capacity = 4\<rparr>"
  by (simp add: invariant_def data_def get_def)

lemma reachable_states:
  assumes "reachable e h objs"
  shows "\<forall>this \<in> set objs. usable h this \<or> moved_from this"
  using assms
proof (induction rule: reachable.induct)
  case (start m)
  then show ?case by simp
next
  case (construct h objs capacity h' this)
  from construct.hyps(2) have "extends h h'" "usable h' this" by (rule ctor_result)+
  with construct.IH show ?case by (auto intro: usable_extends)
next
  case (copy h objs i h' this)
  from copy.IH copy.hyps(2) have "usable h (objs ! i) \<or> moved_from (objs ! i)" by simp
  with copy.hyps(3) have "extends h h'" "usable h' this" by (rule copy_result)+
  with copy.IH show ?case by (auto intro: usable_extends)
next
  case (move h objs i this that)
  from move.IH move.hyps(2) have s: "usable h (objs ! i) \<or> moved_from (objs ! i)" by simp
  from move.hyps(3) have "this = objs ! i" "moved_from that" by (rule move_result)+
  with s move.IH show ?case
    by (auto dest!: set_update_subset_insert [THEN subsetD])
next
  case (append h objs i x h' this)
  from append.IH append.hyps(2) have s: "usable h (objs ! i) \<or> moved_from (objs ! i)" by simp
  with append.hyps(4) append.hyps(3) have "extends h h'" "usable h' this"
    by (rule add_result)+
  with append.IH show ?case
    by (auto dest!: set_update_subset_insert [THEN subsetD] intro: usable_extends)
qed

text \<open>Appending to one object leaves the array of an object with another owner alone.\<close>

lemma add_other:
  assumes u: "usable h this" and ok: "span_ok x" and f: "fits this x"
    and o: "usable h other" and ne: "ob_buffer other \<noteq> ob_buffer this"
  shows "\<exists>h' this'. add e h this x = Inr (h', this') \<and> usable h' other \<and>
           written h' other = written h other \<and> allocation h' other = allocation h other"
proof -
  from u ok f obtain a blk h' this' where r:
    "ob_buffer this = Some a" "a < length (blocks h)" "blocks h ! a = Some blk"
    "length blk = unat (ob_capacity this)"
    "add e h this x = Inr (h', this')"
    "blocks h' = (blocks h)[a := Some (take (unat (ob_size this)) blk @ map Some (encoded_bytes e x) @
                                       drop (unat (ob_size this) + encoded_size x) blk)]"
    by (rule add_fits [where e = e]) blast
  from u have "usable h this \<or> moved_from this" by simp
  with r(5) f have ex: "extends h h'" by (rule add_result(1))
  with o have uo: "usable h' other" by (rule usable_extends)
  from o obtain b where b: "ob_buffer other = Some b" by (rule usableE)
  with ne r have "b \<noteq> a" by simp
  with b r have "written h' other = written h other" "allocation h' other = allocation h other"
    by (simp_all add: written_def allocation_def data_def get_def load_def)
  with r uo show ?thesis by simp
qed

section \<open>The claims\<close>

text \<open>
  C1. For every capacity \<open>C\<close> that the allocator grants and every sequence of appends
  (raw span, string, signed and unsigned integers of 8 to 64 bits, float and double)
  whose encoded sizes sum to at most \<open>C\<close>: the constructor returns an object of size 0,
  the sequence runs without fault on it, \<^verbatim>\<open>size()\<close> is then the sum of the encoded sizes,
  and the first \<^verbatim>\<open>size()\<close> bytes at \<^verbatim>\<open>data()\<close> are the encodings one after the other in
  the order of the calls. With the empty sequence this is \<^verbatim>\<open>new(C).size() == 0\<close>.
\<close>

theorem add_all_concatenation:
  assumes "unat C \<le> avail h" "sum_list (map encoded_size xs) \<le> unat C" "list_all span_ok xs"
  shows "\<exists>h0 b0 h' this'.
           OutBuffer_ctor h C = Inr (h0, b0) \<and> size_of b0 = 0 \<and>
           add_all e h0 b0 xs = Inr (h', this') \<and>
           unat (size_of this') = sum_list (map encoded_size xs) \<and>
           written h' this' = Inr (map Some (concat (map (encoded_bytes e) xs)))"
proof -
  from assms(1) obtain h0 b0 where c: "OutBuffer_ctor h C = Inr (h0, b0)" "usable h0 b0"
    "ob_size b0 = 0" "unat (ob_capacity b0) = unat C" "written h0 b0 = Inr []"
    by (rule ctor_usable) blast
  from assms c have room: "unat (ob_size b0) + sum_list (map encoded_size xs) \<le> unat (ob_capacity b0)"
    by simp
  from add_all_fits [OF c(2) assms(3) room c(5), of e] c show ?thesis
    by (auto simp: size_of_def)
qed

text \<open>
  The scenario of the specification: capacity 15, then uint8 \<open>0x01\<close>, uint32 \<open>0x00000002\<close>,
  the span \<open>AA BB CC DD\<close>, uint16 \<open>0x0003\<close> and the string "test".
\<close>

theorem add_all_concatenation_witness:
  "unat (15 :: 32 word) \<le> avail \<lparr>blocks = [], avail = 64\<rparr> \<and>
   sum_list (map encoded_size
     [UInt8 0x01, UInt32 0x00000002, Raw [0xAA, 0xBB, 0xCC, 0xDD] 4, UInt16 0x0003,
      Str [0x74, 0x65, 0x73, 0x74]]) \<le> unat (15 :: 32 word) \<and>
   list_all span_ok
     [UInt8 0x01, UInt32 0x00000002, Raw [0xAA, 0xBB, 0xCC, 0xDD] 4, UInt16 0x0003,
      Str [0x74, 0x65, 0x73, 0x74]] \<and>
   (\<exists>h0 b0 h' this'.
      OutBuffer_ctor \<lparr>blocks = [], avail = 64\<rparr> 15 = Inr (h0, b0) \<and> size_of b0 = 0 \<and>
      add_all LittleEndian h0 b0
        [UInt8 0x01, UInt32 0x00000002, Raw [0xAA, 0xBB, 0xCC, 0xDD] 4, UInt16 0x0003,
         Str [0x74, 0x65, 0x73, 0x74]] = Inr (h', this') \<and>
      unat (size_of this') = 15 \<and>
      written h' this' =
        Inr (map Some [0x01, 0x00, 0x00, 0x00, 0x02, 0xAA, 0xBB, 0xCC, 0xDD, 0x00, 0x03,
                       0x74, 0x65, 0x73, 0x74]))"
proof -
  let ?h = "\<lparr>blocks = [], avail = 64\<rparr>"
  let ?xs = "[UInt8 0x01, UInt32 0x00000002, Raw [0xAA, 0xBB, 0xCC, 0xDD] 4, UInt16 0x0003,
      Str [0x74, 0x65, 0x73, 0x74]]"
  have h1: "unat (15 :: 32 word) \<le> avail ?h" by simp
  have h2: "sum_list (map encoded_size ?xs) \<le> unat (15 :: 32 word)" by simp
  have h3: "list_all span_ok ?xs" by simp
  have enc: "concat (map (encoded_bytes LittleEndian) ?xs) =
     [0x01, 0x00, 0x00, 0x00, 0x02, 0xAA, 0xBB, 0xCC, 0xDD, 0x00, 0x03, 0x74, 0x65, 0x73, 0x74]"
    by (simp add: be_bytes_def le_bytes_2 le_bytes_4)
  have sz: "sum_list (map encoded_size ?xs) = 15" by simp
  have c: "\<exists>h0 b0 h' this'.
      OutBuffer_ctor ?h 15 = Inr (h0, b0) \<and> size_of b0 = 0 \<and>
      add_all LittleEndian h0 b0 ?xs = Inr (h', this') \<and>
      unat (size_of this') = 15 \<and>
      written h' this' =
        Inr (map Some [0x01, 0x00, 0x00, 0x00, 0x02, 0xAA, 0xBB, 0xCC, 0xDD, 0x00, 0x03,
                       0x74, 0x65, 0x73, 0x74])"
    using add_all_concatenation [OF h1 h2 h3, of LittleEndian] unfolding enc sz .
  show ?thesis by (intro conjI h1 h2 h3 c)
qed

text \<open>
  C2. On a usable object with room for the value, appending a 16-, 32- or 64-bit
  unsigned integer \<open>V\<close> returns, advances \<^verbatim>\<open>size()\<close> by 2, 4 or 8, and changes exactly
  the 2, 4 or 8 cells at the cursor: they hold the bytes of \<open>V\<close> from the most
  significant to the least significant, on a little-endian and on a big-endian host
  alike, and reading these bytes as a big-endian integer gives \<open>V\<close> back. The statement
  is for every \<open>V\<close>, so it covers 0, 1, the maximum and the maximum minus one.
\<close>

theorem add_unsigned_big_endian:
  assumes "usable h this" "allocation h this = Inr blk"
  shows
    "(fits this (UInt16 v16) \<longrightarrow>
        (\<exists>h' this' bs.
           add_uint16 e h this v16 = Inr (h', this') \<and>
           unat (size_of this') = unat (size_of this) + 2 \<and> length bs = 2 \<and>
           allocation h' this' =
             Inr (take (unat (size_of this)) blk @ map Some bs @
                  drop (unat (size_of this) + 2) blk) \<and>
           load h' (ob_current this) 2 = Inr (map Some bs) \<and>
           bs = [ucast (drop_bit 8 v16), ucast v16] \<and> be_word bs = v16)) \<and>
     (fits this (UInt32 v32) \<longrightarrow>
        (\<exists>h' this' bs.
           add_uint32 e h this v32 = Inr (h', this') \<and>
           unat (size_of this') = unat (size_of this) + 4 \<and> length bs = 4 \<and>
           allocation h' this' =
             Inr (take (unat (size_of this)) blk @ map Some bs @
                  drop (unat (size_of this) + 4) blk) \<and>
           load h' (ob_current this) 4 = Inr (map Some bs) \<and>
           bs = [ucast (drop_bit 24 v32), ucast (drop_bit 16 v32), ucast (drop_bit 8 v32),
                 ucast v32] \<and>
           be_word bs = v32)) \<and>
     (fits this (UInt64 v64) \<longrightarrow>
        (\<exists>h' this' bs.
           add_uint64 e h this v64 = Inr (h', this') \<and>
           unat (size_of this') = unat (size_of this) + 8 \<and> length bs = 8 \<and>
           allocation h' this' =
             Inr (take (unat (size_of this)) blk @ map Some bs @
                  drop (unat (size_of this) + 8) blk) \<and>
           load h' (ob_current this) 8 = Inr (map Some bs) \<and>
           bs = [ucast (drop_bit 56 v64), ucast (drop_bit 48 v64), ucast (drop_bit 40 v64),
                 ucast (drop_bit 32 v64), ucast (drop_bit 24 v64), ucast (drop_bit 16 v64),
                 ucast (drop_bit 8 v64), ucast v64] \<and>
           be_word bs = v64))"
proof (intro conjI impI)
  assume f: "fits this (UInt16 v16)"
  have b: "be_bytes 2 v16 = [ucast (drop_bit 8 v16), ucast v16]"
    by (simp add: be_bytes_def le_bytes_2)
  from add_value [OF assms f, of e] be_word_be_bytes16 [of v16]
  show "\<exists>h' this' bs.
           add_uint16 e h this v16 = Inr (h', this') \<and>
           unat (size_of this') = unat (size_of this) + 2 \<and> length bs = 2 \<and>
           allocation h' this' =
             Inr (take (unat (size_of this)) blk @ map Some bs @
                  drop (unat (size_of this) + 2) blk) \<and>
           load h' (ob_current this) 2 = Inr (map Some bs) \<and>
           bs = [ucast (drop_bit 8 v16), ucast v16] \<and> be_word bs = v16"
    by (simp add: b)
next
  assume f: "fits this (UInt32 v32)"
  have b: "be_bytes 4 v32 = [ucast (drop_bit 24 v32), ucast (drop_bit 16 v32), ucast (drop_bit 8 v32),
                 ucast v32]"
    by (simp add: be_bytes_def le_bytes_4)
  from add_value [OF assms f, of e] be_word_be_bytes32 [of v32]
  show "\<exists>h' this' bs.
           add_uint32 e h this v32 = Inr (h', this') \<and>
           unat (size_of this') = unat (size_of this) + 4 \<and> length bs = 4 \<and>
           allocation h' this' =
             Inr (take (unat (size_of this)) blk @ map Some bs @
                  drop (unat (size_of this) + 4) blk) \<and>
           load h' (ob_current this) 4 = Inr (map Some bs) \<and>
           bs = [ucast (drop_bit 24 v32), ucast (drop_bit 16 v32), ucast (drop_bit 8 v32),
                 ucast v32] \<and>
           be_word bs = v32"
    by (simp add: b)
next
  assume f: "fits this (UInt64 v64)"
  have b: "be_bytes 8 v64 = [ucast (drop_bit 56 v64), ucast (drop_bit 48 v64), ucast (drop_bit 40 v64),
                 ucast (drop_bit 32 v64), ucast (drop_bit 24 v64), ucast (drop_bit 16 v64),
                 ucast (drop_bit 8 v64), ucast v64]"
    by (simp add: be_bytes_def le_bytes_8)
  from add_value [OF assms f, of e] be_word_be_bytes64 [of v64]
  show "\<exists>h' this' bs.
           add_uint64 e h this v64 = Inr (h', this') \<and>
           unat (size_of this') = unat (size_of this) + 8 \<and> length bs = 8 \<and>
           allocation h' this' =
             Inr (take (unat (size_of this)) blk @ map Some bs @
                  drop (unat (size_of this) + 8) blk) \<and>
           load h' (ob_current this) 8 = Inr (map Some bs) \<and>
           bs = [ucast (drop_bit 56 v64), ucast (drop_bit 48 v64), ucast (drop_bit 40 v64),
                 ucast (drop_bit 32 v64), ucast (drop_bit 24 v64), ucast (drop_bit 16 v64),
                 ucast (drop_bit 8 v64), ucast v64] \<and>
           be_word bs = v64"
    by (simp add: b)
qed

text \<open>
  The maximum of 16 bits, the maximum minus one of 32 bits and 1 of 64 bits, on a
  little-endian host.
\<close>

theorem add_unsigned_big_endian_witness:
  "usable \<lparr>blocks = [Some (replicate 8 None)], avail = 0\<rparr>
     \<lparr>ob_buffer = Some 0, ob_current = Ptr 0 0, ob_size = 0, ob_capacity = 8\<rparr> \<and>
   allocation \<lparr>blocks = [Some (replicate 8 None)], avail = 0\<rparr>
     \<lparr>ob_buffer = Some 0, ob_current = Ptr 0 0, ob_size = 0, ob_capacity = 8\<rparr> =
     Inr (replicate 8 None) \<and>
   fits \<lparr>ob_buffer = Some 0, ob_current = Ptr 0 0, ob_size = 0, ob_capacity = 8\<rparr> (UInt16 0xFFFF) \<and>
   fits \<lparr>ob_buffer = Some 0, ob_current = Ptr 0 0, ob_size = 0, ob_capacity = 8\<rparr> (UInt32 0xFFFFFFFE) \<and>
   fits \<lparr>ob_buffer = Some 0, ob_current = Ptr 0 0, ob_size = 0, ob_capacity = 8\<rparr> (UInt64 1) \<and>
   (\<exists>h' this'.
      add_uint16 LittleEndian \<lparr>blocks = [Some (replicate 8 None)], avail = 0\<rparr>
        \<lparr>ob_buffer = Some 0, ob_current = Ptr 0 0, ob_size = 0, ob_capacity = 8\<rparr> 0xFFFF =
        Inr (h', this') \<and>
      unat (size_of this') = 2 \<and>
      load h' (Ptr 0 0) 2 = Inr [Some 0xFF, Some 0xFF] \<and>
      be_word [0xFF, 0xFF] = (0xFFFF :: 16 word)) \<and>
   (\<exists>h' this'.
      add_uint32 LittleEndian \<lparr>blocks = [Some (replicate 8 None)], avail = 0\<rparr>
        \<lparr>ob_buffer = Some 0, ob_current = Ptr 0 0, ob_size = 0, ob_capacity = 8\<rparr> 0xFFFFFFFE =
        Inr (h', this') \<and>
      unat (size_of this') = 4 \<and>
      load h' (Ptr 0 0) 4 = Inr [Some 0xFF, Some 0xFF, Some 0xFF, Some 0xFE] \<and>
      be_word [0xFF, 0xFF, 0xFF, 0xFE] = (0xFFFFFFFE :: 32 word)) \<and>
   (\<exists>h' this'.
      add_uint64 LittleEndian \<lparr>blocks = [Some (replicate 8 None)], avail = 0\<rparr>
        \<lparr>ob_buffer = Some 0, ob_current = Ptr 0 0, ob_size = 0, ob_capacity = 8\<rparr> 1 =
        Inr (h', this') \<and>
      unat (size_of this') = 8 \<and>
      load h' (Ptr 0 0) 8 = Inr [Some 0, Some 0, Some 0, Some 0, Some 0, Some 0, Some 0, Some 1] \<and>
      be_word [0, 0, 0, 0, 0, 0, 0, 1] = (1 :: 64 word))"
proof -
  let ?h = "\<lparr>blocks = [Some (replicate 8 None)], avail = 0\<rparr>"
  let ?t = "\<lparr>ob_buffer = Some 0, ob_current = Ptr 0 0, ob_size = 0, ob_capacity = 8\<rparr>"
  have u: "usable ?h ?t" by (simp add: usable_def)
  have al: "allocation ?h ?t = Inr (replicate 8 None)"
    by (simp add: allocation_def data_def get_def load_def)
  have f1: "fits ?t (UInt16 0xFFFF)" by (simp add: fits_def)
  have f2: "fits ?t (UInt32 0xFFFFFFFE)" by (simp add: fits_def)
  have f3: "fits ?t (UInt64 1)" by (simp add: fits_def)
  have n: "(65535 :: byte) = 255" "(16777215 :: byte) = 255" "(4294967294 :: byte) = 254"
    by simp_all
  note c = add_unsigned_big_endian [OF u al, of "0xFFFF" LittleEndian "0xFFFFFFFE" 1]
  from c f1 have c1: "\<exists>h' this'.
      add_uint16 LittleEndian ?h ?t 0xFFFF = Inr (h', this') \<and>
      unat (size_of this') = 2 \<and>
      load h' (Ptr 0 0) 2 = Inr [Some 0xFF, Some 0xFF] \<and>
      be_word [0xFF, 0xFF] = (0xFFFF :: 16 word)"
    by (auto simp add: size_of_def n)
  from c f2 have c2: "\<exists>h' this'.
      add_uint32 LittleEndian ?h ?t 0xFFFFFFFE = Inr (h', this') \<and>
      unat (size_of this') = 4 \<and>
      load h' (Ptr 0 0) 4 = Inr [Some 0xFF, Some 0xFF, Some 0xFF, Some 0xFE] \<and>
      be_word [0xFF, 0xFF, 0xFF, 0xFE] = (0xFFFFFFFE :: 32 word)"
    by (auto simp add: size_of_def n)
  from c f3 have c3: "\<exists>h' this'.
      add_uint64 LittleEndian ?h ?t 1 = Inr (h', this') \<and>
      unat (size_of this') = 8 \<and>
      load h' (Ptr 0 0) 8 = Inr [Some 0, Some 0, Some 0, Some 0, Some 0, Some 0, Some 0, Some 1] \<and>
      be_word [0, 0, 0, 0, 0, 0, 0, 1] = (1 :: 64 word)"
    by (auto simp add: size_of_def n)
  show ?thesis by (intro conjI u al f1 f2 f3 c1 c2 c3)
qed

text \<open>
  C3. On a usable object with room for the value, appending a float or a double \<open>V\<close>
  returns, advances \<^verbatim>\<open>size()\<close> by 4 or 8, and changes exactly the 4 or 8 cells at the
  cursor: they hold the object representation of \<open>V\<close> on the host, with no change of
  byte order, and reading them back in the byte order of the host gives the same bit
  pattern. The statement is for every bit pattern, so it covers the two zeros, NaN
  payloads and subnormal numbers.
\<close>

theorem add_floating_point_verbatim:
  assumes "usable h this" "allocation h this = Inr blk"
  shows
    "(fits this (Float f32) \<longrightarrow>
        (\<exists>h' this' bs.
           add_float e h this f32 = Inr (h', this') \<and>
           unat (size_of this') = unat (size_of this) + 4 \<and> length bs = 4 \<and>
           allocation h' this' =
             Inr (take (unat (size_of this)) blk @ map Some bs @
                  drop (unat (size_of this) + 4) blk) \<and>
           load h' (ob_current this) 4 = Inr (map Some bs) \<and>
           bs = object_repr e 4 f32 \<and> host_word e bs = f32)) \<and>
     (fits this (Double f64) \<longrightarrow>
        (\<exists>h' this' bs.
           add_double e h this f64 = Inr (h', this') \<and>
           unat (size_of this') = unat (size_of this) + 8 \<and> length bs = 8 \<and>
           allocation h' this' =
             Inr (take (unat (size_of this)) blk @ map Some bs @
                  drop (unat (size_of this) + 8) blk) \<and>
           load h' (ob_current this) 8 = Inr (map Some bs) \<and>
           bs = object_repr e 8 f64 \<and> host_word e bs = f64))"
proof (intro conjI impI)
  assume f: "fits this (Float f32)"
  from add_value [OF assms f, of e] host_word_object_repr32 [of e f32]
  show "\<exists>h' this' bs.
           add_float e h this f32 = Inr (h', this') \<and>
           unat (size_of this') = unat (size_of this) + 4 \<and> length bs = 4 \<and>
           allocation h' this' =
             Inr (take (unat (size_of this)) blk @ map Some bs @
                  drop (unat (size_of this) + 4) blk) \<and>
           load h' (ob_current this) 4 = Inr (map Some bs) \<and>
           bs = object_repr e 4 f32 \<and> host_word e bs = f32"
    by simp
next
  assume f: "fits this (Double f64)"
  from add_value [OF assms f, of e] host_word_object_repr64 [of e f64]
  show "\<exists>h' this' bs.
           add_double e h this f64 = Inr (h', this') \<and>
           unat (size_of this') = unat (size_of this) + 8 \<and> length bs = 8 \<and>
           allocation h' this' =
             Inr (take (unat (size_of this)) blk @ map Some bs @
                  drop (unat (size_of this) + 8) blk) \<and>
           load h' (ob_current this) 8 = Inr (map Some bs) \<and>
           bs = object_repr e 8 f64 \<and> host_word e bs = f64"
    by simp
qed

text \<open>
  A NaN with a payload as a float on a little-endian host, and the negative zero as a
  double on a big-endian host.
\<close>

theorem add_floating_point_verbatim_witness:
  "usable \<lparr>blocks = [Some (replicate 8 None)], avail = 0\<rparr>
     \<lparr>ob_buffer = Some 0, ob_current = Ptr 0 0, ob_size = 0, ob_capacity = 8\<rparr> \<and>
   allocation \<lparr>blocks = [Some (replicate 8 None)], avail = 0\<rparr>
     \<lparr>ob_buffer = Some 0, ob_current = Ptr 0 0, ob_size = 0, ob_capacity = 8\<rparr> =
     Inr (replicate 8 None) \<and>
   fits \<lparr>ob_buffer = Some 0, ob_current = Ptr 0 0, ob_size = 0, ob_capacity = 8\<rparr> (Float 0x7FC00001) \<and>
   fits \<lparr>ob_buffer = Some 0, ob_current = Ptr 0 0, ob_size = 0, ob_capacity = 8\<rparr>
     (Double 0x8000000000000000) \<and>
   (\<exists>h' this'.
      add_float LittleEndian \<lparr>blocks = [Some (replicate 8 None)], avail = 0\<rparr>
        \<lparr>ob_buffer = Some 0, ob_current = Ptr 0 0, ob_size = 0, ob_capacity = 8\<rparr> 0x7FC00001 =
        Inr (h', this') \<and>
      unat (size_of this') = 4 \<and>
      load h' (Ptr 0 0) 4 = Inr [Some 0x01, Some 0x00, Some 0xC0, Some 0x7F] \<and>
      host_word LittleEndian [0x01, 0x00, 0xC0, 0x7F] = (0x7FC00001 :: 32 word)) \<and>
   (\<exists>h' this'.
      add_double BigEndian \<lparr>blocks = [Some (replicate 8 None)], avail = 0\<rparr>
        \<lparr>ob_buffer = Some 0, ob_current = Ptr 0 0, ob_size = 0, ob_capacity = 8\<rparr>
        0x8000000000000000 = Inr (h', this') \<and>
      unat (size_of this') = 8 \<and>
      load h' (Ptr 0 0) 8 = Inr [Some 0x80, Some 0, Some 0, Some 0, Some 0, Some 0, Some 0, Some 0] \<and>
      host_word BigEndian [0x80, 0, 0, 0, 0, 0, 0, 0] = (0x8000000000000000 :: 64 word))"
proof -
  let ?h = "\<lparr>blocks = [Some (replicate 8 None)], avail = 0\<rparr>"
  let ?t = "\<lparr>ob_buffer = Some 0, ob_current = Ptr 0 0, ob_size = 0, ob_capacity = 8\<rparr>"
  have u: "usable ?h ?t" by (simp add: usable_def)
  have al: "allocation ?h ?t = Inr (replicate 8 None)"
    by (simp add: allocation_def data_def get_def load_def)
  have f1: "fits ?t (Float 0x7FC00001)" by (simp add: fits_def)
  have f2: "fits ?t (Double 0x8000000000000000)" by (simp add: fits_def)
  have n: "(2143289345 :: byte) = 1" "(8372224 :: byte) = 0" "(32704 :: byte) = 192"
    "(9223372036854775808 :: byte) = 0" "(36028797018963968 :: byte) = 0"
    "(140737488355328 :: byte) = 0" "(549755813888 :: byte) = 0" "(2147483648 :: byte) = 0"
    "(8388608 :: byte) = 0" "(32768 :: byte) = 0"
    by simp_all
  from add_floating_point_verbatim [OF u al, of "0x7FC00001" LittleEndian 0] f1 have c1: "\<exists>h' this'.
      add_float LittleEndian ?h ?t 0x7FC00001 = Inr (h', this') \<and>
      unat (size_of this') = 4 \<and>
      load h' (Ptr 0 0) 4 = Inr [Some 0x01, Some 0x00, Some 0xC0, Some 0x7F] \<and>
      host_word LittleEndian [0x01, 0x00, 0xC0, 0x7F] = (0x7FC00001 :: 32 word)"
    by (auto simp add: size_of_def n object_repr_def le_bytes_4)
  from add_floating_point_verbatim [OF u al, of 0 BigEndian "0x8000000000000000"] f2 have c2: "\<exists>h' this'.
      add_double BigEndian ?h ?t 0x8000000000000000 = Inr (h', this') \<and>
      unat (size_of this') = 8 \<and>
      load h' (Ptr 0 0) 8 = Inr [Some 0x80, Some 0, Some 0, Some 0, Some 0, Some 0, Some 0, Some 0] \<and>
      host_word BigEndian [0x80, 0, 0, 0, 0, 0, 0, 0] = (0x8000000000000000 :: 64 word)"
    by (auto simp add: size_of_def n object_repr_def be_bytes_def le_bytes_8)
  show ?thesis by (intro conjI u al f1 f2 c1 c2)
qed

text \<open>
  C4. Copying a usable object \<open>B1\<close>, when the allocator grants the array, gives an
  object \<open>B2\<close> with the capacity and the size of \<open>B1\<close>, the same written bytes, and its
  cursor \<^verbatim>\<open>size()\<close> bytes into its own array (the write position of \<open>B1\<close>, not its
  capacity). The two arrays are different, and an append that fits on either object
  returns and leaves the written bytes of the other as they were. An object is a value
  here, so an append to one object cannot change the members of the other; what it
  could change is the heap, and it does not.
\<close>

theorem copy_independent:
  assumes "usable h b1" "unat (ob_capacity b1) \<le> avail h"
  shows "\<exists>h' b2 ws.
           OutBuffer_copy h b1 = Inr (h', b2) \<and>
           ob_capacity b2 = ob_capacity b1 \<and> size_of b2 = size_of b1 \<and>
           written h b1 = Inr ws \<and> written h' b2 = Inr ws \<and> written h' b1 = Inr ws \<and>
           ob_current b2 = ptr_add (data b2) (unat (size_of b1)) \<and>
           data b2 \<noteq> data b1 \<and> usable h' b1 \<and> usable h' b2 \<and>
           (\<forall>e x. span_ok x \<and> fits b2 x \<longrightarrow>
              (\<exists>h'' b2'. add e h' b2 x = Inr (h'', b2') \<and> written h'' b1 = Inr ws \<and>
                 usable h'' b1)) \<and>
           (\<forall>e x. span_ok x \<and> fits b1 x \<longrightarrow>
              (\<exists>h'' b1'. add e h' b1 x = Inr (h'', b1') \<and> written h'' b2 = Inr ws \<and>
                 usable h'' b2))"
proof -
  from assms(1) have le: "unat (ob_size b1) \<le> unat (ob_capacity b1)" by (rule usableE)
  from assms(1) obtain a0 blk0 where a0: "ob_buffer b1 = Some a0" "blocks h ! a0 = Some blk0"
    "length blk0 = unat (ob_capacity b1)"
    by (rule usableE)
  from assms obtain a blk h' b2 where r:
    "ob_buffer b1 = Some a" "a < length (blocks h)" "blocks h ! a = Some blk"
    "OutBuffer_copy h b1 = Inr (h', b2)"
    "blocks h' = blocks h @ [Some (take (unat (ob_size b1)) blk @
                                   replicate (unat (ob_capacity b1) - unat (ob_size b1)) None)]"
    "ob_buffer b2 = Some (length (blocks h))"
    "ob_current b2 = Ptr (length (blocks h)) (unat (ob_size b1))"
    "ob_size b2 = ob_size b1" "ob_capacity b2 = ob_capacity b1"
    by (rule copy_usable) blast
  from r a0 have len: "length blk = unat (ob_capacity b1)" by simp
  let ?ws = "take (unat (ob_size b1)) blk"
  have w1: "written h b1 = Inr ?ws"
    using r le len by (intro written_usable) simp_all
  have w2: "written h' b2 = Inr ?ws"
    using r le len by (simp add: written_def size_of_def data_def get_def load_def min_absorb2)
  have w1': "written h' b1 = Inr ?ws"
    using r le len by (simp add: written_def size_of_def data_def get_def load_def nth_append)
  from assms(1) have s: "usable h b1 \<or> moved_from b1" by simp
  from r(4) s have ex: "extends h h'" by (rule copy_result(1))
  from r(4) s have u2: "usable h' b2" by (rule copy_result(2))
  from assms(1) ex have u1: "usable h' b1" by (rule usable_extends)
  from r have ne: "ob_buffer b1 \<noteq> ob_buffer b2" by simp
  have i2: "\<exists>h'' b2'. add e h' b2 x = Inr (h'', b2') \<and> written h'' b1 = Inr ?ws \<and> usable h'' b1"
    if "span_ok x \<and> fits b2 x" for e x
    using add_other [OF u2 _ _ u1 ne, of x e] that w1' by auto
  have i1: "\<exists>h'' b1'. add e h' b1 x = Inr (h'', b1') \<and> written h'' b2 = Inr ?ws \<and> usable h'' b2"
    if "span_ok x \<and> fits b1 x" for e x
    using add_other [OF u1 _ _ u2 ne [symmetric], of x e] that w2 by auto
  have c: "ob_current b2 = ptr_add (data b2) (unat (size_of b1))"
    using r by (simp add: data_def get_def size_of_def)
  have d: "data b2 \<noteq> data b1" using r by (simp add: data_def get_def)
  from r w1 w2 w1' c d u1 u2 i1 i2 show ?thesis
    by (intro exI [of _ h'] exI [of _ b2] exI [of _ ?ws]) (simp add: size_of_def)
qed

theorem copy_independent_witness:
  "usable \<lparr>blocks = [Some [Some 1, Some 2, None, None]], avail = 4\<rparr>
     \<lparr>ob_buffer = Some 0, ob_current = Ptr 0 2, ob_size = 2, ob_capacity = 4\<rparr> \<and>
   unat (ob_capacity \<lparr>ob_buffer = Some 0, ob_current = Ptr 0 2, ob_size = 2, ob_capacity = 4\<rparr>)
     \<le> avail \<lparr>blocks = [Some [Some 1, Some 2, None, None]], avail = 4\<rparr> \<and>
   (\<exists>h' b2.
      OutBuffer_copy \<lparr>blocks = [Some [Some 1, Some 2, None, None]], avail = 4\<rparr>
        \<lparr>ob_buffer = Some 0, ob_current = Ptr 0 2, ob_size = 2, ob_capacity = 4\<rparr> = Inr (h', b2) \<and>
      ob_capacity b2 = 4 \<and> size_of b2 = 2 \<and>
      written h' b2 = Inr [Some 1, Some 2] \<and>
      ob_current b2 = ptr_add (data b2) 2 \<and>
      data b2 \<noteq> Ptr 0 0 \<and>
      (\<exists>h'' b2'. add LittleEndian h' b2 (UInt8 9) = Inr (h'', b2') \<and>
         written h'' \<lparr>ob_buffer = Some 0, ob_current = Ptr 0 2, ob_size = 2, ob_capacity = 4\<rparr> =
           Inr [Some 1, Some 2]) \<and>
      (\<exists>h'' b1'. add LittleEndian h'
           \<lparr>ob_buffer = Some 0, ob_current = Ptr 0 2, ob_size = 2, ob_capacity = 4\<rparr> (UInt8 9) =
           Inr (h'', b1') \<and>
         written h'' b2 = Inr [Some 1, Some 2]))"
proof -
  let ?h = "\<lparr>blocks = [Some [Some 1, Some 2, None, None]], avail = 4\<rparr>"
  let ?b = "\<lparr>ob_buffer = Some 0, ob_current = Ptr 0 2, ob_size = 2, ob_capacity = 4\<rparr>"
  have u: "usable ?h ?b" by (simp add: usable_def)
  have av: "unat (ob_capacity ?b) \<le> avail ?h" by simp
  have w: "written ?h ?b = Inr [Some 1, Some 2]"
    by (simp add: written_def size_of_def data_def get_def load_def)
  from copy_independent [OF u av] obtain h' b2 ws where r:
    "OutBuffer_copy ?h ?b = Inr (h', b2)"
    "ob_capacity b2 = ob_capacity ?b" "size_of b2 = size_of ?b"
    "written ?h ?b = Inr ws" "written h' b2 = Inr ws"
    "ob_current b2 = ptr_add (data b2) (unat (size_of ?b))"
    "data b2 \<noteq> data ?b"
    and i2: "\<forall>e x. span_ok x \<and> fits b2 x \<longrightarrow>
              (\<exists>h'' b2'. add e h' b2 x = Inr (h'', b2') \<and> written h'' ?b = Inr ws \<and>
                 usable h'' ?b)"
    and i1: "\<forall>e x. span_ok x \<and> fits ?b x \<longrightarrow>
              (\<exists>h'' b1'. add e h' ?b x = Inr (h'', b1') \<and> written h'' b2 = Inr ws \<and>
                 usable h'' b2)"
    by blast
  from r w have ws: "ws = [Some 1, Some 2]" by simp
  from r have f2: "span_ok (UInt8 9) \<and> fits b2 (UInt8 9)"
    by (simp add: fits_def size_of_def)
  have f1: "span_ok (UInt8 9) \<and> fits ?b (UInt8 9)" by (simp add: fits_def)
  from i2 f2 have c2: "\<exists>h'' b2'. add LittleEndian h' b2 (UInt8 9) = Inr (h'', b2') \<and>
      written h'' ?b = Inr [Some 1, Some 2]"
    unfolding ws by blast
  from i1 f1 have c1: "\<exists>h'' b1'. add LittleEndian h' ?b (UInt8 9) = Inr (h'', b1') \<and>
      written h'' b2 = Inr [Some 1, Some 2]"
    unfolding ws by blast
  from r ws have c: "ob_capacity b2 = 4" "size_of b2 = 2" "written h' b2 = Inr [Some 1, Some 2]"
    "ob_current b2 = ptr_add (data b2) 2" "data b2 \<noteq> Ptr 0 0"
    by (simp_all add: size_of_def data_def get_def)
  from r(1) c c1 c2 have "\<exists>h' b2.
      OutBuffer_copy ?h ?b = Inr (h', b2) \<and>
      ob_capacity b2 = 4 \<and> size_of b2 = 2 \<and>
      written h' b2 = Inr [Some 1, Some 2] \<and>
      ob_current b2 = ptr_add (data b2) 2 \<and>
      data b2 \<noteq> Ptr 0 0 \<and>
      (\<exists>h'' b2'. add LittleEndian h' b2 (UInt8 9) = Inr (h'', b2') \<and>
         written h'' ?b = Inr [Some 1, Some 2]) \<and>
      (\<exists>h'' b1'. add LittleEndian h' ?b (UInt8 9) = Inr (h'', b1') \<and>
         written h'' b2 = Inr [Some 1, Some 2])"
    by blast
  with u av show ?thesis by (intro conjI)
qed

text \<open>
  C5. The move constructor does not touch the heap. The new object \<open>B2\<close> has the size,
  the \<^verbatim>\<open>data()\<close> pointer, the cursor and the capacity that \<open>B1\<close> had; \<open>B1\<close> is left with
  size 0, capacity 0, a null cursor and an empty owner pointer. Destroying what is left
  of \<open>B1\<close> releases nothing and returns the heap as it is, so that \<open>B2\<close>, when \<open>B1\<close>
  was usable, is still usable with the same written bytes and can be destroyed once
  without fault.
\<close>

theorem move_transfers_ownership:
  "\<exists>b2 b1'.
     OutBuffer_move b1 = (b2, b1') \<and>
     size_of b2 = size_of b1 \<and> data b2 = data b1 \<and> ob_current b2 = ob_current b1 \<and>
     ob_capacity b2 = ob_capacity b1 \<and>
     size_of b1' = 0 \<and> ob_capacity b1' = 0 \<and> ob_current b1' = Nullptr \<and> data b1' = Nullptr \<and>
     OutBuffer_dtor h b1' = Inr h \<and>
     (usable h b1 \<longrightarrow>
        usable h b2 \<and> written h b2 = written h b1 \<and> (\<exists>h'. OutBuffer_dtor h b2 = Inr h'))"
proof -
  have eq: "\<lparr>ob_buffer = ob_buffer b1, ob_current = ob_current b1, ob_size = ob_size b1,
             ob_capacity = ob_capacity b1\<rparr> = b1"
    by simp
  have d: "\<exists>h'. OutBuffer_dtor h b1 = Inr h'" if "usable h b1"
    using that by (rule usableE) (simp add: OutBuffer_dtor_def delete_array_def)
  have m: "OutBuffer_move b1 =
      (b1, b1\<lparr>ob_buffer := None, ob_size := 0, ob_capacity := 0, ob_current := Nullptr\<rparr>)"
    by (simp add: OutBuffer_move_def eq)
  show ?thesis using d
    by (simp add: m size_of_def data_def get_def OutBuffer_dtor_def)
qed

theorem move_transfers_ownership_witness:
  "usable \<lparr>blocks = [Some [Some 1, Some 2, None, None]], avail = 4\<rparr>
     \<lparr>ob_buffer = Some 0, ob_current = Ptr 0 2, ob_size = 2, ob_capacity = 4\<rparr> \<and>
   (\<exists>b2 b1'.
      OutBuffer_move \<lparr>ob_buffer = Some 0, ob_current = Ptr 0 2, ob_size = 2, ob_capacity = 4\<rparr> =
        (b2, b1') \<and>
      size_of b2 = 2 \<and> data b2 = Ptr 0 0 \<and> ob_current b2 = Ptr 0 2 \<and> ob_capacity b2 = 4 \<and>
      size_of b1' = 0 \<and> ob_capacity b1' = 0 \<and> ob_current b1' = Nullptr \<and> data b1' = Nullptr \<and>
      OutBuffer_dtor \<lparr>blocks = [Some [Some 1, Some 2, None, None]], avail = 4\<rparr> b1' =
        Inr \<lparr>blocks = [Some [Some 1, Some 2, None, None]], avail = 4\<rparr> \<and>
      usable \<lparr>blocks = [Some [Some 1, Some 2, None, None]], avail = 4\<rparr> b2 \<and>
      written \<lparr>blocks = [Some [Some 1, Some 2, None, None]], avail = 4\<rparr> b2 =
        Inr [Some 1, Some 2] \<and>
      (\<exists>h'. OutBuffer_dtor \<lparr>blocks = [Some [Some 1, Some 2, None, None]], avail = 4\<rparr> b2 =
         Inr h'))"
proof -
  let ?h = "\<lparr>blocks = [Some [Some 1, Some 2, None, None]], avail = 4\<rparr>"
  let ?b = "\<lparr>ob_buffer = Some 0, ob_current = Ptr 0 2, ob_size = 2, ob_capacity = 4\<rparr>"
  have u: "usable ?h ?b" by (simp add: usable_def)
  have w: "written ?h ?b = Inr [Some 1, Some 2]"
    by (simp add: written_def size_of_def data_def get_def load_def)
  from move_transfers_ownership [of ?b ?h] u w have "\<exists>b2 b1'.
      OutBuffer_move ?b = (b2, b1') \<and>
      size_of b2 = 2 \<and> data b2 = Ptr 0 0 \<and> ob_current b2 = Ptr 0 2 \<and> ob_capacity b2 = 4 \<and>
      size_of b1' = 0 \<and> ob_capacity b1' = 0 \<and> ob_current b1' = Nullptr \<and> data b1' = Nullptr \<and>
      OutBuffer_dtor ?h b1' = Inr ?h \<and>
      usable ?h b2 \<and> written ?h b2 = Inr [Some 1, Some 2] \<and>
      (\<exists>h'. OutBuffer_dtor ?h b2 = Inr h')"
    by (simp add: size_of_def data_def get_def)
  with u show ?thesis by (intro conjI)
qed

text \<open>
  C6. In every state a program reaches by constructing, copying, moving and appending
  operands that fit, every object satisfies the invariant: its size lies between 0 and
  its capacity, and its cursor is its base address plus its size; an object whose base
  address is null (a moved-from object) has size 0, so that the sum is the null pointer
  plus 0.
\<close>

theorem reachable_invariant:
  assumes "reachable e h objs"
  shows "\<forall>this \<in> set objs. invariant this"
  using reachable_states [OF assms] by (auto intro: usable_invariant moved_from_invariant)

text \<open>
  A program that constructs an object of capacity 4, appends the uint16 \<open>0x0102\<close>, copies
  the object and moves the original.
\<close>

theorem reachable_invariant_witness:
  "reachable LittleEndian
     \<lparr>blocks = [Some [Some 1, Some 2, None, None], Some [Some 1, Some 2, None, None]],
      avail = 8\<rparr>
     [\<lparr>ob_buffer = None, ob_current = Nullptr, ob_size = 0, ob_capacity = 0\<rparr>,
      \<lparr>ob_buffer = Some 1, ob_current = Ptr 1 2, ob_size = 2, ob_capacity = 4\<rparr>,
      \<lparr>ob_buffer = Some 0, ob_current = Ptr 0 2, ob_size = 2, ob_capacity = 4\<rparr>] \<and>
   invariant \<lparr>ob_buffer = None, ob_current = Nullptr, ob_size = 0, ob_capacity = 0\<rparr> \<and>
   invariant \<lparr>ob_buffer = Some 1, ob_current = Ptr 1 2, ob_size = 2, ob_capacity = 4\<rparr> \<and>
   invariant \<lparr>ob_buffer = Some 0, ob_current = Ptr 0 2, ob_size = 2, ob_capacity = 4\<rparr>"
proof -
  let ?h1 = "\<lparr>blocks = [Some [None, None, None, None]], avail = 12\<rparr>"
  let ?b0 = "\<lparr>ob_buffer = Some 0, ob_current = Ptr 0 0, ob_size = 0, ob_capacity = 4\<rparr>"
  let ?h2 = "\<lparr>blocks = [Some [Some 1, Some 2, None, None]], avail = 12\<rparr>"
  let ?b1 = "\<lparr>ob_buffer = Some 0, ob_current = Ptr 0 2, ob_size = 2, ob_capacity = 4\<rparr>"
  let ?h3 = "\<lparr>blocks = [Some [Some 1, Some 2, None, None], Some [Some 1, Some 2, None, None]],
      avail = 8\<rparr>"
  let ?b2 = "\<lparr>ob_buffer = Some 1, ob_current = Ptr 1 2, ob_size = 2, ob_capacity = 4\<rparr>"
  let ?husk = "\<lparr>ob_buffer = None, ob_current = Nullptr, ob_size = 0, ob_capacity = 0\<rparr>"
  have rep: "replicate 4 None = [None, None, None, None :: cell]"
    "replicate 2 None = [None, None :: cell]"
    by (simp_all add: eval_nat_numeral)
  have r0: "reachable LittleEndian \<lparr>blocks = [], avail = 16\<rparr> []" by (rule reachable.start)
  have s1: "OutBuffer_ctor \<lparr>blocks = [], avail = 16\<rparr> 4 = Inr (?h1, ?b0)"
    by (simp add: OutBuffer_ctor_def new_array_def get_def rep)
  from reachable.construct [OF r0 s1] have r1: "reachable LittleEndian ?h1 [?b0]" by simp
  have s2: "add LittleEndian ?h1 ([?b0] ! 0) (UInt16 0x0102) = Inr (?h2, ?b1)"
    by (simp add: add_uint16_def add_bytes_def memcpy_def store_def htobe16_def bswap16_def
        object_repr_def le_bytes_2)
  have f2: "fits ([?b0] ! 0) (UInt16 0x0102)" by (simp add: fits_def)
  from reachable.append [OF r1 _ f2 s2] have r2: "reachable LittleEndian ?h2 [?b1]" by simp
  have s3: "OutBuffer_copy ?h2 ([?b1] ! 0) = Inr (?h3, ?b2)"
    by (simp add: OutBuffer_copy_def new_array_def memcpy_heap_def load_def store_def get_def
        rep)
  from reachable.copy [OF r2 _ s3] have r3: "reachable LittleEndian ?h3 [?b1, ?b2]" by simp
  have s4: "OutBuffer_move ([?b1, ?b2] ! 0) = (?b1, ?husk)"
    by (simp add: OutBuffer_move_def)
  from reachable.move [OF r3 _ s4] have r4: "reachable LittleEndian ?h3 [?husk, ?b2, ?b1]"
    by simp
  from reachable_invariant [OF r4] have "invariant ?husk" "invariant ?b2" "invariant ?b1" by simp_all
  with r4 show ?thesis by (intro conjI)
qed

text \<open>
  C7. On a usable object with room for the string, appending a string returns and
  changes exactly as many cells at the cursor as the string has bytes: they hold the
  bytes of the string in order and unchanged; the cursor and \<^verbatim>\<open>size()\<close> advance by the
  length of the string. (The conversion of \<^verbatim>\<open>string.size()\<close> to \<^verbatim>\<open>uint32_t\<close> loses
  nothing here: a string that fits is shorter than \<open>2^32\<close> bytes, the capacity being a
  \<^verbatim>\<open>uint32_t\<close>.)
\<close>

theorem add_string_verbatim:
  assumes "usable h this" "unat (ob_size this) + length s \<le> unat (ob_capacity this)"
    "allocation h this = Inr blk"
  shows "\<exists>h' this'.
           add_string h this s = Inr (h', this') \<and>
           allocation h' this' =
             Inr (take (unat (ob_size this)) blk @ map Some s @
                  drop (unat (ob_size this) + length s) blk) \<and>
           load h' (ob_current this) (length s) = Inr (map Some s) \<and>
           ob_current this' = ptr_add (ob_current this) (length s) \<and>
           size_of this' = size_of this + of_nat (length s) \<and>
           unat (size_of this') = unat (size_of this) + length s"
proof -
  have f: "fits this (Str s)" using assms(2) by (simp add: fits_def)
  have ok: "span_ok (Str s)" by simp
  from assms(1) ok f assms(3) obtain h' this' where
    "add LittleEndian h this (Str s) = Inr (h', this')"
    "allocation h' this' =
       Inr (take (unat (ob_size this)) blk @ map Some (encoded_bytes LittleEndian (Str s)) @
            drop (unat (ob_size this) + encoded_size (Str s)) blk)"
    "ob_size this' = ob_size this + of_nat (encoded_size (Str s))"
    "unat (ob_size this') = unat (ob_size this) + encoded_size (Str s)"
    "ob_current this' = ptr_add (ob_current this) (encoded_size (Str s))"
    "load h' (ob_current this) (encoded_size (Str s)) = Inr (map Some (encoded_bytes LittleEndian (Str s)))"
    by (rule add_fits_allocation [where e = LittleEndian]) blast
  then show ?thesis by (simp add: size_of_def)
qed

theorem add_string_verbatim_witness:
  "usable \<lparr>blocks = [Some (replicate 8 None)], avail = 0\<rparr>
     \<lparr>ob_buffer = Some 0, ob_current = Ptr 0 0, ob_size = 0, ob_capacity = 8\<rparr> \<and>
   unat (ob_size \<lparr>ob_buffer = Some 0, ob_current = Ptr 0 0, ob_size = 0, ob_capacity = 8\<rparr>) +
     length [0x74, 0x65, 0x73, 0x74 :: byte] \<le>
     unat (ob_capacity \<lparr>ob_buffer = Some 0, ob_current = Ptr 0 0, ob_size = 0, ob_capacity = 8\<rparr>) \<and>
   allocation \<lparr>blocks = [Some (replicate 8 None)], avail = 0\<rparr>
     \<lparr>ob_buffer = Some 0, ob_current = Ptr 0 0, ob_size = 0, ob_capacity = 8\<rparr> =
     Inr (replicate 8 None) \<and>
   (\<exists>h' this'.
      add_string \<lparr>blocks = [Some (replicate 8 None)], avail = 0\<rparr>
        \<lparr>ob_buffer = Some 0, ob_current = Ptr 0 0, ob_size = 0, ob_capacity = 8\<rparr>
        [0x74, 0x65, 0x73, 0x74] = Inr (h', this') \<and>
      allocation h' this' =
        Inr ([Some 0x74, Some 0x65, Some 0x73, Some 0x74] @ replicate 4 None) \<and>
      ob_current this' = Ptr 0 4 \<and> size_of this' = 4)"
proof -
  let ?h = "\<lparr>blocks = [Some (replicate 8 None)], avail = 0\<rparr>"
  let ?t = "\<lparr>ob_buffer = Some 0, ob_current = Ptr 0 0, ob_size = 0, ob_capacity = 8\<rparr>"
  have u: "usable ?h ?t" by (simp add: usable_def)
  have al: "allocation ?h ?t = Inr (replicate 8 None)"
    by (simp add: allocation_def data_def get_def load_def)
  have f: "unat (ob_size ?t) + length [0x74, 0x65, 0x73, 0x74 :: byte] \<le> unat (ob_capacity ?t)"
    by simp
  from add_string_verbatim [OF u f al] have c: "\<exists>h' this'.
      add_string ?h ?t [0x74, 0x65, 0x73, 0x74] = Inr (h', this') \<and>
      allocation h' this' =
        Inr ([Some 0x74, Some 0x65, Some 0x73, Some 0x74] @ replicate 4 None) \<and>
      ob_current this' = Ptr 0 4 \<and> size_of this' = 4"
    by (auto simp add: size_of_def)
  show ?thesis by (intro conjI u f al c)
qed

text \<open>
  C8. An append that fits on a usable object returns, leaves the capacity and the base
  address as they were, does not lower \<^verbatim>\<open>size()\<close>, leaves every byte below the old
  \<^verbatim>\<open>size()\<close> as it was, and puts the encoding of the operand right behind them; the
  cells of the array behind the encoding are unchanged as well.
\<close>

theorem add_sequential:
  assumes "usable h this" "span_ok x" "fits this x"
  shows "\<exists>h' this' ws blk.
           add e h this x = Inr (h', this') \<and>
           ob_capacity this' = ob_capacity this \<and> data this' = data this \<and>
           unat (size_of this) \<le> unat (size_of this') \<and>
           written h this = Inr ws \<and>
           load h' (data this') (unat (size_of this)) = Inr ws \<and>
           written h' this' = Inr (ws @ map Some (encoded_bytes e x)) \<and>
           allocation h this = Inr blk \<and>
           allocation h' this' =
             Inr (take (unat (size_of this)) blk @ map Some (encoded_bytes e x) @
                  drop (unat (size_of this) + encoded_size x) blk)"
proof -
  from assms(1) obtain a blk where a: "ob_buffer this = Some a" "a < length (blocks h)"
    "blocks h ! a = Some blk" "length blk = unat (ob_capacity this)"
    by (rule usableE)
  then have al: "allocation h this = Inr blk" by (intro allocation_usable) simp_all
  from assms al obtain h' this' where "add e h this x = Inr (h', this')"
    "allocation h' this' =
       Inr (take (unat (ob_size this)) blk @ map Some (encoded_bytes e x) @
            drop (unat (ob_size this) + encoded_size x) blk)"
    "ob_capacity this' = ob_capacity this" "data this' = data this"
    "unat (ob_size this') = unat (ob_size this) + encoded_size x"
    "written h this = Inr (take (unat (ob_size this)) blk)"
    "load h' (data this) (unat (ob_size this)) = Inr (take (unat (ob_size this)) blk)"
    "written h' this' = Inr (take (unat (ob_size this)) blk @ map Some (encoded_bytes e x))"
    by (rule add_fits_allocation [where e = e]) blast
  with al show ?thesis by (simp add: size_of_def)
qed

theorem add_sequential_witness:
  "usable \<lparr>blocks = [Some [Some 1, None, None, None]], avail = 0\<rparr>
     \<lparr>ob_buffer = Some 0, ob_current = Ptr 0 1, ob_size = 1, ob_capacity = 4\<rparr> \<and>
   span_ok (UInt16 3) \<and>
   fits \<lparr>ob_buffer = Some 0, ob_current = Ptr 0 1, ob_size = 1, ob_capacity = 4\<rparr> (UInt16 3) \<and>
   (\<exists>h' this'.
      add BigEndian \<lparr>blocks = [Some [Some 1, None, None, None]], avail = 0\<rparr>
        \<lparr>ob_buffer = Some 0, ob_current = Ptr 0 1, ob_size = 1, ob_capacity = 4\<rparr> (UInt16 3) =
        Inr (h', this') \<and>
      ob_capacity this' = 4 \<and> data this' = Ptr 0 0 \<and>
      load h' (data this') 1 = Inr [Some 1] \<and>
      written h' this' = Inr [Some 1, Some 0, Some 3] \<and>
      allocation h' this' = Inr [Some 1, Some 0, Some 3, None])"
proof -
  let ?h = "\<lparr>blocks = [Some [Some 1, None, None, None]], avail = 0\<rparr>"
  let ?t = "\<lparr>ob_buffer = Some 0, ob_current = Ptr 0 1, ob_size = 1, ob_capacity = 4\<rparr>"
  have u: "usable ?h ?t" by (simp add: usable_def)
  have ok: "span_ok (UInt16 3)" by simp
  have f: "fits ?t (UInt16 3)" by (simp add: fits_def)
  have w: "written ?h ?t = Inr [Some 1]"
    by (simp add: written_def size_of_def data_def get_def load_def)
  have al: "allocation ?h ?t = Inr [Some 1, None, None, None]"
    by (simp add: allocation_def data_def get_def load_def)
  from add_sequential [OF u ok f, of BigEndian] have c: "\<exists>h' this'.
      add BigEndian ?h ?t (UInt16 3) = Inr (h', this') \<and>
      ob_capacity this' = 4 \<and> data this' = Ptr 0 0 \<and>
      load h' (data this') 1 = Inr [Some 1] \<and>
      written h' this' = Inr [Some 1, Some 0, Some 3] \<and>
      allocation h' this' = Inr [Some 1, Some 0, Some 3, None]"
    unfolding w al
    by (auto simp add: size_of_def data_def get_def be_bytes_def le_bytes_2)
  show ?thesis by (intro conjI u ok f c)
qed

text \<open>
  C9. For each width of 8, 16, 32 and 64 bits, appending a signed value is the same
  computation as appending the unsigned value with the same two's complement bit
  pattern: same outcome, same heap, same object.
\<close>

theorem add_signed_as_unsigned:
  "add_int8 h this i8 = add_uint8 h this (word_of_int i8) \<and>
   add_int16 e h this i16 = add_uint16 e h this (word_of_int i16) \<and>
   add_int32 e h this i32 = add_uint32 e h this (word_of_int i32) \<and>
   add_int64 e h this i64 = add_uint64 e h this (word_of_int i64)"
  by (simp add: add_int8_def add_uint8_def add_int16_def add_uint16_def add_int32_def
      add_uint32_def add_int64_def add_uint64_def signed_repr_def)

theorem add_signed_as_unsigned_witness:
  "add_int8 \<lparr>blocks = [Some (replicate 8 None)], avail = 0\<rparr>
     \<lparr>ob_buffer = Some 0, ob_current = Ptr 0 0, ob_size = 0, ob_capacity = 8\<rparr> (- 1) =
   add_uint8 \<lparr>blocks = [Some (replicate 8 None)], avail = 0\<rparr>
     \<lparr>ob_buffer = Some 0, ob_current = Ptr 0 0, ob_size = 0, ob_capacity = 8\<rparr> 0xFF \<and>
   add_int16 LittleEndian \<lparr>blocks = [Some (replicate 8 None)], avail = 0\<rparr>
     \<lparr>ob_buffer = Some 0, ob_current = Ptr 0 0, ob_size = 0, ob_capacity = 8\<rparr> (- 2) =
   add_uint16 LittleEndian \<lparr>blocks = [Some (replicate 8 None)], avail = 0\<rparr>
     \<lparr>ob_buffer = Some 0, ob_current = Ptr 0 0, ob_size = 0, ob_capacity = 8\<rparr> 0xFFFE \<and>
   add_int32 LittleEndian \<lparr>blocks = [Some (replicate 8 None)], avail = 0\<rparr>
     \<lparr>ob_buffer = Some 0, ob_current = Ptr 0 0, ob_size = 0, ob_capacity = 8\<rparr> (- 2147483648) =
   add_uint32 LittleEndian \<lparr>blocks = [Some (replicate 8 None)], avail = 0\<rparr>
     \<lparr>ob_buffer = Some 0, ob_current = Ptr 0 0, ob_size = 0, ob_capacity = 8\<rparr> 0x80000000 \<and>
   add_int64 BigEndian \<lparr>blocks = [Some (replicate 8 None)], avail = 0\<rparr>
     \<lparr>ob_buffer = Some 0, ob_current = Ptr 0 0, ob_size = 0, ob_capacity = 8\<rparr> (- 1) =
   add_uint64 BigEndian \<lparr>blocks = [Some (replicate 8 None)], avail = 0\<rparr>
     \<lparr>ob_buffer = Some 0, ob_current = Ptr 0 0, ob_size = 0, ob_capacity = 8\<rparr>
     0xFFFFFFFFFFFFFFFF"
proof -
  let ?h = "\<lparr>blocks = [Some (replicate 8 None)], avail = 0\<rparr>"
  let ?t = "\<lparr>ob_buffer = Some 0, ob_current = Ptr 0 0, ob_size = 0, ob_capacity = 8\<rparr>"
  have n: "(word_of_int (- 1) :: 8 word) = 0xFF" "(word_of_int (- 2) :: 16 word) = 0xFFFE"
    "(word_of_int (- 2147483648) :: 32 word) = 0x80000000"
    "(word_of_int (- 1) :: 64 word) = 0xFFFFFFFFFFFFFFFF"
    by simp_all
  from add_signed_as_unsigned [of ?h ?t "- 1" LittleEndian "- 2" "- 2147483648" 0]
    add_signed_as_unsigned [of ?h ?t 0 BigEndian 0 0 "- 1"]
  show ?thesis unfolding n by blast
qed

text \<open>
  C10. On a usable object, appending a raw span with the explicit length 0 returns the
  heap and the object as they were, whatever the pointer refers to; every sequence of
  appends after it therefore behaves as it does without it.
\<close>

theorem add_raw_zero_length:
  assumes "usable h this"
  shows "add_raw h this string 0 = Inr (h, this) \<and>
         (\<forall>e xs. add_all e h this (Raw string 0 # xs) = add_all e h this xs)"
proof -
  from assms obtain a blk where a: "ob_buffer this = Some a" "a < length (blocks h)"
    "blocks h ! a = Some blk" "length blk = unat (ob_capacity this)"
    "unat (ob_size this) \<le> unat (ob_capacity this)"
    "ob_current this = Ptr a (unat (ob_size this))"
    by (rule usableE)
  have "(blocks h)[a := Some blk] = blocks h"
    using a by (metis list_update_id)
  then have r: "add_raw h this string 0 = Inr (h, this)"
    using a by (simp add: add_raw_def add_bytes_def memcpy_def store_def)
  then show ?thesis by simp
qed

theorem add_raw_zero_length_witness:
  "usable \<lparr>blocks = [Some [Some 1, None, None, None]], avail = 0\<rparr>
     \<lparr>ob_buffer = Some 0, ob_current = Ptr 0 1, ob_size = 1, ob_capacity = 4\<rparr> \<and>
   add_raw \<lparr>blocks = [Some [Some 1, None, None, None]], avail = 0\<rparr>
     \<lparr>ob_buffer = Some 0, ob_current = Ptr 0 1, ob_size = 1, ob_capacity = 4\<rparr> [7, 8, 9] 0 =
     Inr (\<lparr>blocks = [Some [Some 1, None, None, None]], avail = 0\<rparr>,
          \<lparr>ob_buffer = Some 0, ob_current = Ptr 0 1, ob_size = 1, ob_capacity = 4\<rparr>) \<and>
   add_all LittleEndian \<lparr>blocks = [Some [Some 1, None, None, None]], avail = 0\<rparr>
     \<lparr>ob_buffer = Some 0, ob_current = Ptr 0 1, ob_size = 1, ob_capacity = 4\<rparr>
     [Raw [7, 8, 9] 0, UInt8 5] =
   add_all LittleEndian \<lparr>blocks = [Some [Some 1, None, None, None]], avail = 0\<rparr>
     \<lparr>ob_buffer = Some 0, ob_current = Ptr 0 1, ob_size = 1, ob_capacity = 4\<rparr> [UInt8 5]"
proof -
  let ?h = "\<lparr>blocks = [Some [Some 1, None, None, None]], avail = 0\<rparr>"
  let ?t = "\<lparr>ob_buffer = Some 0, ob_current = Ptr 0 1, ob_size = 1, ob_capacity = 4\<rparr>"
  have u: "usable ?h ?t" by (simp add: usable_def)
  from add_raw_zero_length [OF u, of "[7, 8, 9]"] u show ?thesis by blast
qed

end
